theory Spec2Isabelle
  imports Main "HOL-Library.AList" "HOL-Library.Multiset"
begin

section \<open>JavaScript values and plain objects\<close>

text \<open>
  A size held in one of the plugin's filename-to-size objects is a number, \<open>null\<close>
  (the value \<open>getSizes\<close> substitutes for a failed compression) or \<open>undefined\<close>
  (what an out-of-range array read \<open>values[i]\<close> yields). Byte counts are integers.
\<close>

datatype jsval = Undefined | Null | Num int

text \<open>
  A plain object is the list of its own properties in the order \<open>Object.keys\<close>
  enumerates them: keys that are array indices first, in ascending numeric order, then
  the other string keys in insertion order. Keys are unique. Filenames are taken to be
  ordinary property names (none of those \<open>Object.prototype\<close> defines).
\<close>

type_synonym 'v jsobj = "(string \<times> 'v) list"

definition is_digit :: "char \<Rightarrow> bool" where
  "is_digit c = (c \<in> set ''0123456789'')"

definition digit_val :: "char \<Rightarrow> int" where
  "digit_val c = of_char c - of_char CHR ''0''"

definition dec_value :: "string \<Rightarrow> int" where
  "dec_value s = foldl (\<lambda>a c. 10 * a + digit_val c) 0 s"

text \<open>An array index is a canonical decimal numeral below \<open>2^32 - 1\<close>.\<close>

definition is_array_index :: "string \<Rightarrow> bool" where
  "is_array_index s =
     (s \<noteq> [] \<and> list_all is_digit s \<and> (s = ''0'' \<or> hd s \<noteq> CHR ''0'') \<and>
      dec_value s < 4294967295)"

definition keys :: "'v jsobj \<Rightarrow> string list" where
  "keys obj = map fst obj"

definition obj_get :: "'v jsobj \<Rightarrow> string \<Rightarrow> 'v option" where
  "obj_get obj k = map_of obj k"

fun insert_index :: "string \<Rightarrow> 'v \<Rightarrow> 'v jsobj \<Rightarrow> 'v jsobj" where
  "insert_index k v [] = [(k, v)]"
| "insert_index k v (p # ps) =
     (if is_array_index (fst p) \<and> dec_value (fst p) < dec_value k
      then p # insert_index k v ps
      else (k, v) # p # ps)"

text \<open>
  The assignment \<open>obj[k] = v\<close>: an existing property keeps its place, a new array
  index is put among the indices, any other new key goes last.
\<close>

definition obj_set :: "'v jsobj \<Rightarrow> string \<Rightarrow> 'v \<Rightarrow> 'v jsobj" where
  "obj_set obj k v =
     (if k \<in> set (keys obj) then AList.update k v obj
      else if is_array_index k then insert_index k v obj
      else obj @ [(k, v)])"

text \<open>An array read \<open>values[i]\<close>; past the end it is \<open>undefined\<close>.\<close>

definition js_nth :: "jsval list \<Rightarrow> nat \<Rightarrow> jsval" where
  "js_nth values i = (if i < length values then values ! i else Undefined)"

section \<open>util.js\<close>

text \<open>\<open>noop\<close> returns its argument.\<close>

definition noop :: "'a \<Rightarrow> 'a" where
  "noop a = a"

text \<open>
  \<open>toMap(names, values)\<close> reduces over \<open>names\<close> with the running index \<open>i\<close>,
  assigning \<open>map[name] = values[i]\<close>.
\<close>

fun toMap_loop :: "jsval jsobj \<Rightarrow> nat \<Rightarrow> string list \<Rightarrow> jsval list \<Rightarrow> jsval jsobj" where
  "toMap_loop m i [] values = m"
| "toMap_loop m i (name # names) values =
     toMap_loop (obj_set m name (js_nth values i)) (Suc i) names values"

definition toMap :: "string list \<Rightarrow> jsval list \<Rightarrow> jsval jsobj" where
  "toMap names values = toMap_loop [] 0 names values"

text \<open>
  \<open>arr.indexOf(item)\<close> is the first position of \<open>item\<close>; \<open>None\<close> stands for the
  result \<open>-1\<close>. \<open>dedupe\<close> is the callback handed to \<open>Array.prototype.filter\<close>, which
  calls it with the element, its index and the whole array.
\<close>

primrec indexOf :: "'a list \<Rightarrow> 'a \<Rightarrow> nat option" where
  "indexOf [] item = None"
| "indexOf (x # xs) item = (if x = item then Some 0 else map_option Suc (indexOf xs item))"

definition dedupe :: "'a \<Rightarrow> nat \<Rightarrow> 'a list \<Rightarrow> bool" where
  "dedupe item index arr = (indexOf arr item = Some index)"

fun filter_loop :: "('a \<Rightarrow> nat \<Rightarrow> 'a list \<Rightarrow> bool) \<Rightarrow> 'a list \<Rightarrow> nat \<Rightarrow> 'a list \<Rightarrow> 'a list" where
  "filter_loop p arr i [] = []"
| "filter_loop p arr i (x # xs) =
     (if p x i arr then x # filter_loop p arr (Suc i) xs else filter_loop p arr (Suc i) xs)"

definition js_filter :: "('a \<Rightarrow> nat \<Rightarrow> 'a list \<Rightarrow> bool) \<Rightarrow> 'a list \<Rightarrow> 'a list" where
  "js_filter p arr = filter_loop p arr 0 arr"

text \<open>One entry of a stored snapshot, and a snapshot.\<close>

record file_entry =
  e_filename :: string
  e_previous :: int
  e_size :: int
  e_diff :: int

record snapshot =
  timestamp :: int
  files :: "file_entry list"

text \<open>
  \<open>toFileMap(files)\<close> keeps the entries whose \<open>size\<close> is truthy, that is, nonzero.
\<close>

fun toFileMap_loop :: "jsval jsobj \<Rightarrow> file_entry list \<Rightarrow> jsval jsobj" where
  "toFileMap_loop result [] = result"
| "toFileMap_loop result (file # fs) =
     toFileMap_loop
       (if e_size file \<noteq> 0 then obj_set result (e_filename file) (Num (e_size file))
        else result) fs"

definition toFileMap :: "file_entry list \<Rightarrow> jsval jsobj" where
  "toFileMap fs = toFileMap_loop [] fs"

section \<open>size-plugin-store: remote publishing\<close>

text \<open>
  The process environment and the fields \<open>ci-env\<close> derives from it. An absent variable
  is \<open>None\<close>.
\<close>

record env =
  NODE_ENV :: "string option"
  SIZE_STORE_ENDPOINT :: "string option"
  cwd :: string
  ci :: "string option"
  repo :: "string option"
  sha :: "string option"
  event :: "string option"
  branch :: "string option"

text \<open>Truthiness of a possibly absent string: present and non-empty.\<close>

definition truthy :: "string option \<Rightarrow> bool" where
  "truthy s = (case s of None \<Rightarrow> False | Some t \<Rightarrow> t \<noteq> [])"

datatype payload = Diff snapshot | Size "snapshot list"

record request =
  rq_ci :: "string option"
  rq_repo :: "string option"
  rq_branch :: "string option"
  rq_sha :: "string option"
  rq_filename :: string
  rq_body :: payload

text \<open>
  What an invocation does to the outside is recorded in order: calls into the store
  module, the custom save hook, the JSON file written, and the HTTP requests sent.
\<close>

datatype effect =
    Call_publishDiff snapshot string
  | Call_publishSizes "snapshot list" string
  | Call_save snapshot
  | WriteJSON string "snapshot list"
  | Post string request

text \<open>
  What \<open>fs.readJSON\<close> finds at a path: no file, a file that does not parse, JSON that
  is not an array (its \<open>sort\<close> is not a function), or an array of snapshots.
\<close>

datatype filestate = Missing | Unparsable | NotArray | Parsed "snapshot list"

record world =
  fs :: "string \<Rightarrow> filestate"
  trace :: "effect list"

definition endpoint :: "env \<Rightarrow> string" where
  "endpoint e =
     (case SIZE_STORE_ENDPOINT e of
        None \<Rightarrow> ''https://size-store.now.sh''
      | Some u \<Rightarrow> if u \<noteq> [] then u else ''https://size-store.now.sh'')"

definition emit :: "effect \<Rightarrow> world \<Rightarrow> world" where
  "emit x w = w\<lparr>trace := trace w @ [x]\<rparr>"

text \<open>The object \<open>params\<close> that is posted.\<close>

definition params :: "env \<Rightarrow> string \<Rightarrow> payload \<Rightarrow> request" where
  "params e fname body =
     \<lparr>rq_ci = ci e, rq_repo = repo e, rq_branch = branch e, rq_sha = sha e,
      rq_filename = fname, rq_body = body\<rparr>"

text \<open>
  \<open>publishDiff\<close> and \<open>publishSizes\<close> post only inside their CI gate; a failed request is
  caught and logged, so either way the call returns normally.
\<close>

definition publishDiff :: "env \<Rightarrow> snapshot \<Rightarrow> string \<Rightarrow> world \<Rightarrow> world" where
  "publishDiff e d fname w =
     (let w1 = emit (Call_publishDiff d fname) w in
      if NODE_ENV e \<noteq> Some ''test'' \<and> truthy (ci e) \<and> event e = Some ''pull_request''
      then emit (Post (endpoint e @ ''/diff'') (params e fname (Diff d))) w1
      else w1)"

definition publishSizes :: "env \<Rightarrow> snapshot list \<Rightarrow> string \<Rightarrow> world \<Rightarrow> world" where
  "publishSizes e sz fname w =
     (let w1 = emit (Call_publishSizes sz fname) w in
      if NODE_ENV e \<noteq> Some ''test'' \<and> truthy (ci e) \<and> event e = Some ''push'' \<and>
         branch e = Some ''master''
      then emit (Post (endpoint e @ ''/size'') (params e fname (Size sz))) w1
      else w1)"

section \<open>size-plugin-core.js\<close>

subsection \<open>Libraries and options\<close>

datatype color = Red | Yellow | Cyan | Green

datatype style = Paint color | Bold

datatype compression = Brotli | Gzip

record item =
  i_name :: string
  i_sizeBefore :: int
  i_size :: int
  i_sizeText :: string
  i_delta :: int
  i_deltaText :: string
  i_msg :: string
  i_color :: color

text \<open>
  The libraries the core calls are parameters: \<open>pretty-bytes\<close>, \<open>chalk\<close>,
  \<open>minimatch.filter\<close> (pattern, then path), \<open>glob\<close> (pattern, directory, ignore
  pattern), \<open>path.join\<close>, and the compressed size of a buffer and of a file, where
  \<open>None\<close> is a rejected promise.
\<close>

record libs =
  prettyBytes :: "int \<Rightarrow> string"
  chalk :: "style \<Rightarrow> string \<Rightarrow> string"
  minimatch_filter :: "string \<Rightarrow> string \<Rightarrow> bool"
  glob :: "string \<Rightarrow> string \<Rightarrow> string option \<Rightarrow> string list"
  path_join :: "string \<Rightarrow> string \<Rightarrow> string"
  compressionSize :: "compression \<Rightarrow> string \<Rightarrow> int option"
  compressionSize_file :: "compression \<Rightarrow> string \<Rightarrow> int option"

type_synonym item_hook = "string \<Rightarrow> item \<Rightarrow> string option"

type_synonym after_hook = "item list \<Rightarrow> jsval jsobj \<Rightarrow> jsval jsobj \<Rightarrow> string \<Rightarrow> string option"

text \<open>The options as the caller passes them; an absent option is \<open>None\<close>.\<close>

record raw_options =
  r_pattern :: "string option"
  r_exclude :: "string option"
  r_filename :: "string option"
  r_writeFile :: "bool option"
  r_publish :: "bool option"
  r_mode :: "string option"
  r_compression :: "compression option"
  r_stripHash :: "(string \<Rightarrow> string) option"
  r_decorateItem :: "item_hook option"
  r_decorateAfter :: "after_hook option"
  r_save :: bool

text \<open>
  The options after \<open>Core\<close> has filled in its defaults. The custom \<open>save\<close> hook is an
  opaque callback: the model records that it was called and with what.
\<close>

record options =
  pattern :: string
  exclude :: "string option"
  filename :: string
  filepath :: string
  writeFile :: bool
  publish :: bool
  mode :: "string option"
  compression :: compression
  stripHash :: "string \<Rightarrow> string"
  decorateItem :: "item_hook option"
  decorateAfter :: "after_hook option"
  save_hook :: bool

definition Core :: "libs \<Rightarrow> env \<Rightarrow> raw_options \<Rightarrow> options" where
  "Core L e r =
     (let fname = (if truthy (r_filename r) then the (r_filename r) else ''size-plugin.json'') in
      \<lparr>pattern = (if truthy (r_pattern r) then the (r_pattern r)
                  else ''**/*.{mjs,js,jsx,css,html}''),
       exclude = r_exclude r,
       filename = fname,
       filepath = path_join L (cwd e) fname,
       writeFile = (r_writeFile r \<noteq> Some False),
       publish = (r_publish r = Some True),
       mode = (if truthy (r_mode r) then r_mode r else NODE_ENV e),
       compression = (case r_compression r of None \<Rightarrow> Gzip | Some c \<Rightarrow> c),
       stripHash = (case r_stripHash r of None \<Rightarrow> noop | Some f \<Rightarrow> f),
       decorateItem = r_decorateItem r,
       decorateAfter = r_decorateAfter r,
       save_hook = r_save r\<rparr>)"

subsection \<open>Reading and writing the history\<close>

text \<open>
  \<open>readFromDisk\<close>: the stored array sorted by \<open>b.timestamp - a.timestamp\<close> (descending,
  and stable: equal timestamps keep their order); the empty history when \<open>readJSON\<close>
  or the sort throws.
\<close>

definition readFromDisk :: "world \<Rightarrow> string \<Rightarrow> snapshot list" where
  "readFromDisk w path =
     (case fs w path of
        Parsed oldStats \<Rightarrow> sort_key (\<lambda>s. - timestamp s) oldStats
      | _ \<Rightarrow> [])"

text \<open>
  \<open>writeToDisk\<close>: behind the gate the history is read again, the new snapshot is put in
  front (\<open>unshift\<close>), and the result is written and published as the flags say. The
  file write itself is taken to succeed.
\<close>

definition writeToDisk :: "options \<Rightarrow> env \<Rightarrow> string \<Rightarrow> snapshot \<Rightarrow> world \<Rightarrow> world" where
  "writeToDisk opt e path stats w =
     (if mode opt = Some ''production'' \<and> list_ex (\<lambda>file. e_diff file \<noteq> 0) (files stats)
      then
        let data = stats # readFromDisk w path;
            w1 = (if writeFile opt
                  then emit (WriteJSON path data) (w\<lparr>fs := (fs w)(path := Parsed data)\<rparr>)
                  else w)
        in if publish opt then publishSizes e data (filename opt) w1 else w1
      else w)"

text \<open>\<open>save\<close>; \<open>now\<close> is the value of \<open>Date.now()\<close>.\<close>

definition stats_of :: "int \<Rightarrow> item list \<Rightarrow> snapshot" where
  "stats_of now items =
     \<lparr>timestamp = now,
      files = map (\<lambda>file. \<lparr>e_filename = i_name file, e_previous = i_sizeBefore file,
                            e_size = i_size file, e_diff = i_size file - i_sizeBefore file\<rparr>)
                items\<rparr>"

definition save :: "options \<Rightarrow> env \<Rightarrow> int \<Rightarrow> item list \<Rightarrow> world \<Rightarrow> world" where
  "save opt e now items w =
     (let stats = stats_of now items;
          w1 = (if publish opt then publishDiff e stats (filename opt) w else w);
          w2 = (if save_hook opt then emit (Call_save stats) w1 else w1)
      in writeToDisk opt e (filepath opt) stats w2)"

subsection \<open>The baseline\<close>

definition filterFiles :: "libs \<Rightarrow> options \<Rightarrow> string list \<Rightarrow> string list" where
  "filterFiles L opt fnames =
     (let isMatched = minimatch_filter L (pattern opt);
          isExcluded = (if truthy (exclude opt) then minimatch_filter L (the (exclude opt))
                        else (\<lambda>file. False))
      in filter (\<lambda>file. isMatched file \<and> \<not> isExcluded file) fnames)"

text \<open>
  \<open>getSizes\<close>: the sizes are computed for \<open>filterFiles(files)\<close>, each rejection replaced
  by \<open>null\<close>, and paired by position with the normalized names of all of \<open>files\<close>.
\<close>

definition getSizes :: "libs \<Rightarrow> options \<Rightarrow> string \<Rightarrow> jsval jsobj" where
  "getSizes L opt dir =
     (let fnames = glob L (pattern opt) dir (exclude opt);
          sizes = map (\<lambda>file. case compressionSize_file L (compression opt) (path_join L dir file) of
                                 Some n \<Rightarrow> Num n
                               | None \<Rightarrow> Null)
                      (filterFiles L opt fnames)
      in toMap (map (stripHash opt) fnames) sizes)"

definition load :: "libs \<Rightarrow> options \<Rightarrow> world \<Rightarrow> string \<Rightarrow> jsval jsobj" where
  "load L opt w outputPath =
     (case readFromDisk w (filepath opt) of
        [] \<Rightarrow> getSizes L opt outputPath
      | s # rest \<Rightarrow> toFileMap (files s))"

subsection \<open>outputSizes\<close>

text \<open>\<open>x || 0\<close> for a property read \<open>x\<close>: a missing, null or undefined size is \<open>0\<close>.\<close>

definition or_zero :: "jsval option \<Rightarrow> int" where
  "or_zero x = (case x of Some (Num n) \<Rightarrow> n | _ \<Rightarrow> 0)"

definition pick_color :: "int \<Rightarrow> color" where
  "pick_color sz =
     (if sz > 100 * 1024 then Red
      else if sz > 40 * 1024 then Yellow
      else if sz > 20 * 1024 then Cyan
      else Green)"

text \<open>The glyph U+23E4 between name and size, as its UTF-8 bytes, with its blanks.\<close>

definition separator :: string where
  "separator = [CHR '' '', CHR 0xE2, CHR 0x8F, CHR 0xA4, CHR '' '', CHR '' '']"

text \<open>
  \<open>Math.max\<close> over the name lengths; it is only used inside the loop, which does not
  run when there is no name.
\<close>

definition max_width :: "string list \<Rightarrow> int" where
  "max_width fnames = foldr (\<lambda>file m. max (int (length file)) m) fnames 0"

text \<open>One pass of the loop body up to the construction of \<open>item\<close>.\<close>

definition make_item :: "libs \<Rightarrow> int \<Rightarrow> jsval jsobj \<Rightarrow> jsval jsobj \<Rightarrow> string \<Rightarrow> item" where
  "make_item L width sizesBefore finalSizes nm =
     (let sz = or_zero (obj_get finalSizes nm);
          sizeBefore = or_zero (obj_get sizesBefore nm);
          delta = sz - sizeBefore;
          msg = replicate (nat (width - int (length nm) + 1)) CHR '' '' @ nm @ separator;
          color = pick_color sz;
          sizeText0 = chalk L (Paint color) (prettyBytes L sz);
          deltaText0 = (if delta > 0 then ''+'' else []) @ prettyBytes L delta;
          deltaText = (if delta \<noteq> 0 \<and> \<bar>delta\<bar> > 1
                       then (if delta > 1024 then chalk L (Paint Red) deltaText0
                             else if delta < - 10 then chalk L (Paint Green) deltaText0
                             else deltaText0)
                       else []);
          sizeText = (if delta \<noteq> 0 \<and> \<bar>delta\<bar> > 1
                      then (if delta > 1024 then chalk L Bold sizeText0 else sizeText0)
                           @ '' ('' @ deltaText @ '')''
                      else sizeText0)
      in \<lparr>i_name = nm, i_sizeBefore = sizeBefore, i_size = sz, i_sizeText = sizeText,
          i_delta = delta, i_deltaText = deltaText, i_msg = msg, i_color = color\<rparr>)"

text \<open>The line of an item: the default text, or what \<open>decorateItem\<close> returns if truthy.\<close>

definition item_text :: "options \<Rightarrow> item \<Rightarrow> string" where
  "item_text opt it =
     (let text = i_msg it @ i_sizeText it @ [CHR 0x0A] in
      case decorateItem opt of
        None \<Rightarrow> text
      | Some hook \<Rightarrow> (if truthy (hook text it) then the (hook text it) else text))"

text \<open>\<open>text.replace(/^\n/g, "")\<close> drops one leading line feed.\<close>

definition strip_newline :: "string \<Rightarrow> string" where
  "strip_newline t = (case t of [] \<Rightarrow> [] | c # cs \<Rightarrow> if c = CHR 0x0A then cs else t)"

definition after_text :: "options \<Rightarrow> item list \<Rightarrow> jsval jsobj \<Rightarrow> jsval jsobj \<Rightarrow> string \<Rightarrow> string" where
  "after_text opt items sizesBefore finalSizes output =
     (case decorateAfter opt of
        None \<Rightarrow> output
      | Some hook \<Rightarrow>
          (if truthy (hook items sizesBefore finalSizes output)
           then output @ [CHR 0x0A] @ strip_newline (the (hook items sizesBefore finalSizes output))
           else output))"

text \<open>The list of unique filenames and the records built from it.\<close>

definition unique_files :: "jsval jsobj \<Rightarrow> jsval jsobj \<Rightarrow> string list" where
  "unique_files sizesBefore finalSizes = js_filter dedupe (keys sizesBefore @ keys finalSizes)"

definition make_items :: "libs \<Rightarrow> jsval jsobj \<Rightarrow> jsval jsobj \<Rightarrow> item list" where
  "make_items L sizesBefore finalSizes =
     (let fnames = unique_files sizesBefore finalSizes;
          width = max_width fnames
      in map (make_item L width sizesBefore finalSizes) fnames)"

datatype error = CompressionRejected

text \<open>
  \<open>assets[name].source\<close> compressed; \<open>Promise.all\<close> over the tracked assets rejects as
  soon as one of them does, and then \<open>outputSizes\<close> rejects before anything is saved.
\<close>

definition asset_size :: "libs \<Rightarrow> options \<Rightarrow> string jsobj \<Rightarrow> string \<Rightarrow> int option" where
  "asset_size L opt assets nm =
     (case obj_get assets nm of
        None \<Rightarrow> None
      | Some source \<Rightarrow> compressionSize L (compression opt) source)"

text \<open>The map of de-hashed filenames to their final size, if every compression succeeds.\<close>

definition current_sizes :: "libs \<Rightarrow> options \<Rightarrow> string jsobj \<Rightarrow> jsval jsobj option" where
  "current_sizes L opt assets =
     (let assetNames = filterFiles L opt (keys assets)
      in map_option (\<lambda>sizes. toMap (map (stripHash opt) assetNames) (map Num sizes))
           (those (map (asset_size L opt assets) assetNames)))"

definition outputSizes ::
  "libs \<Rightarrow> options \<Rightarrow> env \<Rightarrow> int \<Rightarrow> string jsobj \<Rightarrow> string \<Rightarrow> world \<Rightarrow> error + (string \<times> world)" where
  "outputSizes L opt e now assets outputPath w =
     (let sizesBefore = load L opt w outputPath
      in case current_sizes L opt assets of
           None \<Rightarrow> Inl CompressionRejected
         | Some finalSizes \<Rightarrow>
             (let items = make_items L sizesBefore finalSizes;
                  output = concat (map (item_text opt) items);
                  output' = after_text opt items sizesBefore finalSizes output
              in Inr (output', save opt e now items w)))"

section \<open>Notions used in the statements\<close>

text \<open>The effects an invocation adds to the trace.\<close>

definition new_effects :: "world \<Rightarrow> world \<Rightarrow> effect list" where
  "new_effects w w' = drop (length (trace w)) (trace w')"

text \<open>
  The effects that persist a history: the local JSON write and the remote size publish
  (the call and its request).
\<close>

fun persists :: "effect \<Rightarrow> bool" where
  "persists (WriteJSON path data) = True"
| "persists (Call_publishSizes data fname) = True"
| "persists (Post url rq) = (case rq_body rq of Size data \<Rightarrow> True | Diff d \<Rightarrow> False)"
| "persists x = False"

text \<open>The world in which \<open>save\<close> calls \<open>writeToDisk\<close>.\<close>

definition before_write :: "options \<Rightarrow> env \<Rightarrow> snapshot \<Rightarrow> world \<Rightarrow> world" where
  "before_write opt e stats w =
     (let w1 = (if publish opt then publishDiff e stats (filename opt) w else w)
      in if save_hook opt then emit (Call_save stats) w1 else w1)"

text \<open>
  Keeping the first occurrence of every element, given the elements already seen; the
  filter with \<open>dedupe\<close> computes it.
\<close>

fun first_seen :: "'a list \<Rightarrow> 'a list \<Rightarrow> 'a list" where
  "first_seen seen [] = []"
| "first_seen seen (x # xs) =
     (if x \<in> set seen then first_seen (seen @ [x]) xs else x # first_seen (seen @ [x]) xs)"

text \<open>The size \<open>getSizes\<close> records for a file: its compressed size, or \<open>null\<close>.\<close>

definition size_or_null :: "libs \<Rightarrow> options \<Rightarrow> string \<Rightarrow> string \<Rightarrow> jsval" where
  "size_or_null L opt dir file =
     (case compressionSize_file L (compression opt) (path_join L dir file) of
        Some n \<Rightarrow> Num n
      | None \<Rightarrow> Null)"

section \<open>An example configuration\<close>

text \<open>
  Stand-ins for the libraries, used to run the definitions on concrete inputs:
  \<open>pretty-bytes\<close> prints a sign and a unit, \<open>chalk\<close> tags its text, a path matches a
  pattern when it ends with it, \<open>glob\<close> finds three files in \<open>dist\<close>, and the file
  \<open>bad.js\<close> cannot be compressed.
\<close>

definition ex_chalk :: "style \<Rightarrow> string \<Rightarrow> string" where
  "ex_chalk st s =
     (case st of
        Bold \<Rightarrow> ''<b>'' @ s
      | Paint Red \<Rightarrow> ''<red>'' @ s
      | Paint Yellow \<Rightarrow> ''<yellow>'' @ s
      | Paint Cyan \<Rightarrow> ''<cyan>'' @ s
      | Paint Green \<Rightarrow> ''<green>'' @ s)"

definition ex_suffix :: "string \<Rightarrow> string \<Rightarrow> bool" where
  "ex_suffix pat file = (drop (length file - length pat) file = pat)"

definition ex_libs :: libs where
  "ex_libs =
     \<lparr>prettyBytes = (\<lambda>n. if n < 0 then ''-B'' else ''B''),
      chalk = ex_chalk,
      minimatch_filter = ex_suffix,
      glob = (\<lambda>pat dir ign. if dir = ''dist'' then [''a.1.js'', ''bad.js'', ''a.2.js''] else []),
      path_join = (\<lambda>dir file. dir @ ''/'' @ file),
      compressionSize = (\<lambda>c source. if source = ''!'' then None else Some (int (length source))),
      compressionSize_file = (\<lambda>c path.
         if path = ''dist/a.1.js'' then Some 10
         else if path = ''dist/a.2.js'' then Some 20
         else None)\<rparr>"

text \<open>Options that track \<open>.js\<close> files; \<open>ex_strip\<close> removes the hash of \<open>a.N.js\<close>.\<close>

definition ex_strip :: "string \<Rightarrow> string" where
  "ex_strip file = (if file = ''a.1.js'' \<or> file = ''a.2.js'' then ''a.js'' else file)"

definition ex_options :: options where
  "ex_options =
     \<lparr>pattern = ''.js'', exclude = None, filename = ''size-plugin.json'',
      filepath = ''/size-plugin.json'', writeFile = True, publish = True,
      mode = Some ''production'', compression = Gzip, stripHash = ex_strip,
      decorateItem = None, decorateAfter = None, save_hook = True\<rparr>"

definition ex_env :: env where
  "ex_env =
     \<lparr>NODE_ENV = Some ''production'', SIZE_STORE_ENDPOINT = None, cwd = [],
      ci = Some ''travis'', repo = Some ''r'', sha = Some ''s'',
      event = Some ''pull_request'', branch = Some ''topic''\<rparr>"

definition ex_entry :: "string \<Rightarrow> int \<Rightarrow> file_entry" where
  "ex_entry nm sz = \<lparr>e_filename = nm, e_previous = 0, e_size = sz, e_diff = sz\<rparr>"

definition ex_world :: "filestate \<Rightarrow> world" where
  "ex_world content = \<lparr>fs = (\<lambda>path. content), trace = []\<rparr>"

text \<open>The baseline and the current sizes of the specification's scenario.\<close>

definition ex_before :: "jsval jsobj" where
  "ex_before = [(''a.js'', Num 100), (''b.js'', Num 200)]"

definition ex_after :: "jsval jsobj" where
  "ex_after = [(''a.js'', Num 150), (''c.js'', Num 50)]"

text \<open>A stored history of two snapshots, the older one first.\<close>

definition ex_history :: "snapshot list" where
  "ex_history =
     [\<lparr>timestamp = 1, files = [ex_entry ''old.js'' 9]\<rparr>,
      \<lparr>timestamp = 2, files = [ex_entry ''a.js'' 20]\<rparr>]"

text \<open>The assets of a build: one tracked file of four bytes and a style sheet.\<close>

definition ex_assets :: "string jsobj" where
  "ex_assets = [(''a.1.js'', ''xxxx''), (''c.css'', ''yy'')]"

section \<open>Objects and the helpers of util.js\<close>

lemma keys_insert_index: "set (keys (insert_index k v m)) = insert k (set (keys m))"
  by (induction m) (auto simp: keys_def)

lemma distinct_insert_index:
  "k \<notin> set (keys m) \<Longrightarrow> distinct (keys m) \<Longrightarrow> distinct (keys (insert_index k v m))"
proof (induction m)
  case Nil
  then show ?case by (simp add: keys_def)
next
  case (Cons p ps)
  have "set (keys (insert_index k v ps)) = insert k (set (keys ps))"
    by (rule keys_insert_index)
  with Cons show ?case by (auto simp: keys_def)
qed

lemma map_of_insert_index:
  "k \<notin> set (keys m) \<Longrightarrow> map_of (insert_index k v m) = (map_of m)(k \<mapsto> v)"
  by (induction m) (auto simp: keys_def fun_eq_iff)

lemma set_keys_obj_set: "set (keys (obj_set m k v)) = insert k (set (keys m))"
proof (cases "k \<in> set (keys m)")
  case True
  then show ?thesis by (auto simp: obj_set_def keys_def AList.update_keys)
next
  case False
  then show ?thesis
    using keys_insert_index [of k v m] by (auto simp: obj_set_def keys_def)
qed

lemma distinct_obj_set: "distinct (keys m) \<Longrightarrow> distinct (keys (obj_set m k v))"
  unfolding obj_set_def
  using distinct_insert_index [of k m v] AList.distinct_update [of m k v]
  by (auto simp: keys_def)

lemma obj_get_obj_set:
  "obj_get (obj_set m k v) k' = (if k' = k then Some v else obj_get m k')"
proof -
  have "map_of (obj_set m k v) = (map_of m)(k \<mapsto> v)"
  proof (cases "k \<in> set (keys m)")
    case True
    then show ?thesis by (simp add: obj_set_def AList.update_conv')
  next
    case False
    then have "map_of m k = None" by (simp add: keys_def map_of_eq_None_iff)
    with False show ?thesis
      by (auto simp: obj_set_def map_of_insert_index fun_eq_iff map_add_def
               split: option.splits)
  qed
  then show ?thesis by (simp add: obj_get_def)
qed

lemma toMap_loop_other:
  "k \<notin> set names \<Longrightarrow> obj_get (toMap_loop m i names values) k = obj_get m k"
  by (induction names arbitrary: m i) (auto simp: obj_get_obj_set)

lemma toMap_loop_last:
  "j < length names \<Longrightarrow> names ! j = k \<Longrightarrow>
   (\<forall>l. j < l \<and> l < length names \<longrightarrow> names ! l \<noteq> k) \<Longrightarrow>
   obj_get (toMap_loop m i names values) k = Some (js_nth values (i + j))"
proof (induction names arbitrary: m i j)
  case Nil
  then show ?case by simp
next
  case (Cons a names)
  show ?case
  proof (cases j)
    case 0
    with Cons.prems have a: "a = k" by simp
    have "k \<notin> set names"
    proof
      assume "k \<in> set names"
      then obtain l where "l < length names" "names ! l = k" by (auto simp: in_set_conv_nth)
      with Cons.prems(3) [rule_format, of "Suc l"] 0 show False by simp
    qed
    then show ?thesis using 0 a by (simp add: toMap_loop_other obj_get_obj_set)
  next
    case (Suc j')
    have "obj_get (toMap_loop (obj_set m a (js_nth values i)) (Suc i) names values) k
          = Some (js_nth values (Suc i + j'))"
    proof (rule Cons.IH)
      show "j' < length names" using Cons.prems Suc by simp
      show "names ! j' = k" using Cons.prems Suc by simp
      show "\<forall>l. j' < l \<and> l < length names \<longrightarrow> names ! l \<noteq> k"
        using Cons.prems(3) Suc by (metis Suc_less_eq length_Cons nth_Cons_Suc)
    qed
    then show ?thesis using Suc by simp
  qed
qed

lemma distinct_toMap_loop:
  "distinct (keys m) \<Longrightarrow> distinct (keys (toMap_loop m i names values))"
  by (induction names arbitrary: m i) (auto simp: distinct_obj_set)

lemma set_keys_toMap_loop:
  "set (keys (toMap_loop m i names values)) = set (keys m) \<union> set names"
  by (induction names arbitrary: m i) (auto simp: set_keys_obj_set)

lemma indexOf_append_fresh:
  "x \<notin> set pre \<Longrightarrow> indexOf (pre @ x # xs) x = Some (length pre)"
  by (induction pre) auto

lemma indexOf_append_seen:
  "x \<in> set pre \<Longrightarrow> indexOf (pre @ ys) x \<noteq> Some (length pre)"
proof
  assume a: "x \<in> set pre" and b: "indexOf (pre @ ys) x = Some (length pre)"
  from a have "\<exists>i. indexOf (pre @ ys) x = Some i \<and> i < length pre"
    by (induction pre) auto
  with b show False by auto
qed

lemma dedupe_iff: "dedupe x (length pre) (pre @ x # xs) \<longleftrightarrow> x \<notin> set pre"
  using indexOf_append_fresh [of x pre xs] indexOf_append_seen [of x pre "x # xs"]
  by (auto simp: dedupe_def)

lemma filter_loop_dedupe: "filter_loop dedupe (pre @ xs) (length pre) xs = first_seen pre xs"
proof (induction xs arbitrary: pre)
  case Nil
  then show ?case by simp
next
  case (Cons x xs)
  have "filter_loop dedupe ((pre @ [x]) @ xs) (length (pre @ [x])) xs = first_seen (pre @ [x]) xs"
    by (rule Cons.IH)
  then show ?case using dedupe_iff [of x pre xs] by simp
qed

lemma first_seen_filter:
  "distinct xs \<Longrightarrow> first_seen seen xs = filter (\<lambda>x. x \<notin> set seen) xs"
proof (induction xs arbitrary: seen)
  case Nil
  then show ?case by simp
next
  case (Cons x xs)
  then have "first_seen (seen @ [x]) xs = filter (\<lambda>y. y \<notin> set (seen @ [x])) xs" by simp
  also have "\<dots> = filter (\<lambda>y. y \<notin> set seen) xs"
    using Cons.prems by (intro filter_cong) auto
  finally show ?case by simp
qed

lemma first_seen_append:
  "distinct xs \<Longrightarrow> first_seen seen (xs @ ys) =
     filter (\<lambda>x. x \<notin> set seen) xs @ first_seen (seen @ xs) ys"
proof (induction xs arbitrary: seen)
  case Nil
  then show ?case by simp
next
  case (Cons x xs)
  then have "first_seen (seen @ [x]) (xs @ ys)
     = filter (\<lambda>y. y \<notin> set (seen @ [x])) xs @ first_seen ((seen @ [x]) @ xs) ys"
    by simp
  moreover have "filter (\<lambda>y. y \<notin> set (seen @ [x])) xs = filter (\<lambda>y. y \<notin> set seen) xs"
    using Cons.prems by (intro filter_cong) auto
  ultimately show ?case by simp
qed

lemma js_filter_dedupe_append:
  assumes "distinct xs" "distinct ys"
  shows "js_filter dedupe (xs @ ys) = xs @ filter (\<lambda>y. y \<notin> set xs) ys"
proof -
  have "js_filter dedupe (xs @ ys) = first_seen [] (xs @ ys)"
    using filter_loop_dedupe [of "[]" "xs @ ys"] by (simp add: js_filter_def)
  also have "\<dots> = xs @ first_seen xs ys"
    using assms(1) by (simp add: first_seen_append)
  also have "first_seen xs ys = filter (\<lambda>y. y \<notin> set xs) ys"
    using assms(2) by (rule first_seen_filter)
  finally show ?thesis .
qed

lemma set_first_seen: "set (first_seen seen xs) = set xs - set seen"
  by (induction xs arbitrary: seen) auto

lemma distinct_first_seen: "distinct (first_seen seen xs)"
  by (induction xs arbitrary: seen) (auto simp: set_first_seen)

lemma toFileMap_loop_get:
  "obj_get (toFileMap_loop m xs) k =
     (case filter (\<lambda>f. e_filename f = k \<and> e_size f \<noteq> 0) xs of
        [] \<Rightarrow> obj_get m k
      | y # ys \<Rightarrow> Some (Num (e_size (last (y # ys)))))"
proof (induction xs arbitrary: m)
  case Nil
  then show ?case by simp
next
  case (Cons f xs)
  show ?case
    by (simp add: Cons.IH obj_get_obj_set split: list.splits)
qed

lemma distinct_toFileMap_loop:
  "distinct (keys m) \<Longrightarrow> distinct (keys (toFileMap_loop m xs))"
  by (induction xs arbitrary: m) (auto simp: distinct_obj_set)

lemma sorted_desc_readFromDisk:
  "sorted_wrt (\<lambda>a b. timestamp a \<ge> timestamp b) (sort_key (\<lambda>s. - timestamp s) h)"
proof -
  have "sorted (map (\<lambda>s. - timestamp s) (sort_key (\<lambda>s. - timestamp s) h))"
    by (rule sorted_sort_key)
  then show ?thesis
    by (simp add: sorted_map sorted_wrt_iff_nth_less)
qed

section \<open>The reconciled records\<close>

lemma make_items_names: "map i_name (make_items L b a) = unique_files b a"
  by (simp add: make_items_def make_item_def Let_def comp_def)

lemma i_name_make_item: "i_name (make_item L w b a nm) = nm"
  by (simp add: make_item_def Let_def)

lemma i_size_make_item: "i_size (make_item L w b a nm) = or_zero (obj_get a nm)"
  by (simp add: make_item_def Let_def)

lemma i_sizeBefore_make_item: "i_sizeBefore (make_item L w b a nm) = or_zero (obj_get b nm)"
  by (simp add: make_item_def Let_def)

lemma i_delta_make_item:
  "i_delta (make_item L w b a nm) = or_zero (obj_get a nm) - or_zero (obj_get b nm)"
  by (simp add: make_item_def Let_def)

lemma i_color_make_item: "i_color (make_item L w b a nm) = pick_color (or_zero (obj_get a nm))"
  by (simp add: make_item_def Let_def)

lemma make_items_elem:
  assumes "it \<in> set (make_items L b a)"
  shows "it = make_item L (max_width (unique_files b a)) b a (i_name it)"
proof -
  from assms obtain nm where "it = make_item L (max_width (unique_files b a)) b a nm"
    by (auto simp: make_items_def Let_def)
  then show ?thesis by (simp add: i_name_make_item)
qed

lemma ex_unique: "unique_files ex_before ex_after = [''a.js'', ''b.js'', ''c.js'']"
  by (simp add: unique_files_def js_filter_def dedupe_def keys_def
        ex_before_def ex_after_def)

lemma ex_items:
  "make_items ex_libs ex_before ex_after =
     [make_item ex_libs 4 ex_before ex_after ''a.js'',
      make_item ex_libs 4 ex_before ex_after ''b.js'',
      make_item ex_libs 4 ex_before ex_after ''c.js'']"
  by (simp add: make_items_def ex_unique max_width_def)

text \<open>
  C1. Every record the reconciliation builds from a baseline map and a current map has,
  for its key, the previous size the baseline holds (0 when the key is missing or its
  size is null or undefined), the current size the current map holds (0 likewise), and
  their difference as delta. A key that the current map lacks gets current size 0 and
  the negated previous size as delta.
\<close>

theorem reconciled_record_sizes:
  assumes "it \<in> set (make_items L before after)"
  shows "i_sizeBefore it = (case obj_get before (i_name it) of Some (Num n) \<Rightarrow> n | _ \<Rightarrow> 0) \<and>
         i_size it = (case obj_get after (i_name it) of Some (Num n) \<Rightarrow> n | _ \<Rightarrow> 0) \<and>
         i_delta it = i_size it - i_sizeBefore it \<and>
         (obj_get after (i_name it) = None \<longrightarrow> i_size it = 0 \<and> i_delta it = - i_sizeBefore it)"
proof -
  let ?it = "make_item L (max_width (unique_files before after)) before after (i_name it)"
  have eq: "it = ?it" using assms by (rule make_items_elem)
  have "i_sizeBefore ?it = or_zero (obj_get before (i_name it))"
    and "i_size ?it = or_zero (obj_get after (i_name it))"
    and "i_delta ?it = i_size ?it - i_sizeBefore ?it"
    by (simp_all only: i_sizeBefore_make_item i_size_make_item i_delta_make_item)
  with eq have "i_sizeBefore it = or_zero (obj_get before (i_name it))"
    and "i_size it = or_zero (obj_get after (i_name it))"
    and "i_delta it = i_size it - i_sizeBefore it"
    by simp_all
  then show ?thesis by (simp add: or_zero_def)
qed

theorem reconciled_record_sizes_witness:
  "i_name (make_item ex_libs 4 ex_before ex_after ''b.js'') = ''b.js'' \<and>
   i_sizeBefore (make_item ex_libs 4 ex_before ex_after ''b.js'') = 200 \<and>
   i_size (make_item ex_libs 4 ex_before ex_after ''b.js'') = 0 \<and>
   i_delta (make_item ex_libs 4 ex_before ex_after ''b.js'') = - 200"
proof -
  have mem: "make_item ex_libs 4 ex_before ex_after ''b.js''
               \<in> set (make_items ex_libs ex_before ex_after)"
    by (simp add: ex_items)
  show ?thesis
    using reconciled_record_sizes [OF mem]
    by (simp add: i_name_make_item obj_get_def ex_before_def ex_after_def)
qed

text \<open>
  C2. For a baseline map and a current map (objects, so their keys are unique), the
  names of the records are the baseline's keys in their order followed by the current
  map's keys that the baseline lacks, in their order; every key of the union occurs
  exactly once.
\<close>

theorem reconciled_keys_union:
  assumes "distinct (keys before)" and "distinct (keys after)"
  shows "map i_name (make_items L before after) =
           keys before @ filter (\<lambda>k. k \<notin> set (keys before)) (keys after) \<and>
         distinct (map i_name (make_items L before after)) \<and>
         set (map i_name (make_items L before after)) = set (keys before) \<union> set (keys after)"
proof -
  have "map i_name (make_items L before after) =
          keys before @ filter (\<lambda>k. k \<notin> set (keys before)) (keys after)"
    using assms by (simp add: make_items_names unique_files_def js_filter_dedupe_append)
  then show ?thesis using assms by auto
qed

theorem reconciled_keys_union_witness:
  "map i_name (make_items ex_libs ex_before ex_after) = [''a.js'', ''b.js'', ''c.js'']"
proof -
  have "distinct (keys ex_before)" and "distinct (keys ex_after)"
    by (simp_all add: keys_def ex_before_def ex_after_def)
  from reconciled_keys_union [OF this, of ex_libs] show ?thesis
    by (simp add: keys_def ex_before_def ex_after_def)
qed

lemma distinct_keys_toMap: "distinct (keys (toMap names values))"
  unfolding toMap_def by (rule distinct_toMap_loop) (simp add: keys_def)

lemma distinct_keys_toFileMap: "distinct (keys (toFileMap xs))"
  unfolding toFileMap_def by (rule distinct_toFileMap_loop) (simp add: keys_def)

lemma distinct_keys_load: "distinct (keys (load L opt w outputPath))"
  by (simp add: load_def getSizes_def Let_def distinct_keys_toMap distinct_keys_toFileMap
           split: list.splits)

lemma distinct_keys_current_sizes:
  "current_sizes L opt assets = Some finalSizes \<Longrightarrow> distinct (keys finalSizes)"
  by (auto simp: current_sizes_def Let_def distinct_keys_toMap)

text \<open>
  Inside \<open>outputSizes\<close> both maps are objects the plugin has built, so the names of the
  saved records are always the baseline's keys followed by the new keys of the build.
\<close>

lemma outputSizes_record_names:
  assumes "current_sizes L opt assets = Some finalSizes"
  shows "map e_filename
           (files (stats_of now (make_items L (load L opt w outputPath) finalSizes))) =
         keys (load L opt w outputPath) @
         filter (\<lambda>k. k \<notin> set (keys (load L opt w outputPath))) (keys finalSizes)"
proof -
  have "map e_filename
           (files (stats_of now (make_items L (load L opt w outputPath) finalSizes)))
        = unique_files (load L opt w outputPath) finalSizes"
    by (simp add: stats_of_def comp_def) (simp add: make_items_names)
  also have "\<dots> = keys (load L opt w outputPath) @
         filter (\<lambda>k. k \<notin> set (keys (load L opt w outputPath))) (keys finalSizes)"
    unfolding unique_files_def
    by (rule js_filter_dedupe_append)
       (rule distinct_keys_load, rule distinct_keys_current_sizes [OF assms])
  finally show ?thesis .
qed

lemma i_deltaText_make_item:
  "i_deltaText (make_item L w b a nm) =
     (if \<bar>or_zero (obj_get a nm) - or_zero (obj_get b nm)\<bar> > 1
      then (if or_zero (obj_get a nm) - or_zero (obj_get b nm) > 1024
            then chalk L (Paint Red)
                   ((if or_zero (obj_get a nm) - or_zero (obj_get b nm) > 0 then ''+'' else [])
                    @ prettyBytes L (or_zero (obj_get a nm) - or_zero (obj_get b nm)))
            else if or_zero (obj_get a nm) - or_zero (obj_get b nm) < - 10
            then chalk L (Paint Green)
                   ((if or_zero (obj_get a nm) - or_zero (obj_get b nm) > 0 then ''+'' else [])
                    @ prettyBytes L (or_zero (obj_get a nm) - or_zero (obj_get b nm)))
            else (if or_zero (obj_get a nm) - or_zero (obj_get b nm) > 0 then ''+'' else [])
                    @ prettyBytes L (or_zero (obj_get a nm) - or_zero (obj_get b nm)))
      else [])"
  by (simp add: make_item_def Let_def)

lemma i_sizeText_make_item:
  "i_sizeText (make_item L w b a nm) =
     (if \<bar>i_delta (make_item L w b a nm)\<bar> > 1
      then (if i_delta (make_item L w b a nm) > 1024
            then chalk L Bold (chalk L (Paint (i_color (make_item L w b a nm)))
                                 (prettyBytes L (i_size (make_item L w b a nm))))
            else chalk L (Paint (i_color (make_item L w b a nm)))
                                 (prettyBytes L (i_size (make_item L w b a nm))))
           @ '' ('' @ i_deltaText (make_item L w b a nm) @ '')''
      else chalk L (Paint (i_color (make_item L w b a nm)))
                                 (prettyBytes L (i_size (make_item L w b a nm))))"
  by (simp add: make_item_def Let_def)


text \<open>
  C5. The colour of a record is red exactly when its current size exceeds 100 * 1024,
  yellow exactly when the size is above 40 * 1024 and at most 100 * 1024, cyan exactly
  when it is above 20 * 1024 and at most 40 * 1024, and green otherwise; a size of
  exactly 100 * 1024 is yellow.
\<close>

theorem severity_color:
  "i_color (make_item L w b a nm) = pick_color (i_size (make_item L w b a nm)) \<and>
   (pick_color sz = Red \<longleftrightarrow> 100 * 1024 < sz) \<and>
   (pick_color sz = Yellow \<longleftrightarrow> 40 * 1024 < sz \<and> sz \<le> 100 * 1024) \<and>
   (pick_color sz = Cyan \<longleftrightarrow> 20 * 1024 < sz \<and> sz \<le> 40 * 1024) \<and>
   (pick_color sz = Green \<longleftrightarrow> sz \<le> 20 * 1024) \<and>
   pick_color (100 * 1024) = Yellow"
proof -
  have "i_color (make_item L w b a nm) = pick_color (i_size (make_item L w b a nm))"
    by (simp only: i_color_make_item i_size_make_item)
  moreover have "pick_color sz = Red \<longleftrightarrow> 100 * 1024 < sz"
    by (simp add: pick_color_def)
  moreover have "pick_color sz = Yellow \<longleftrightarrow> 40 * 1024 < sz \<and> sz \<le> 100 * 1024"
    by (simp add: pick_color_def)
  moreover have "pick_color sz = Cyan \<longleftrightarrow> 20 * 1024 < sz \<and> sz \<le> 40 * 1024"
    by (simp add: pick_color_def)
  moreover have "pick_color sz = Green \<longleftrightarrow> sz \<le> 20 * 1024"
    by (simp add: pick_color_def)
  moreover have "pick_color (100 * 1024) = Yellow"
    by (simp add: pick_color_def)
  ultimately show ?thesis by blast
qed

theorem severity_color_witness:
  "i_color (make_item ex_libs 4 ex_before ex_after ''a.js'') = Green \<and>
   pick_color 102401 = Red \<and> pick_color 40960 = Cyan"
  using severity_color [of ex_libs 4 ex_before ex_after "''a.js''" 150]
        severity_color [of ex_libs 4 ex_before ex_after "''a.js''" 102401]
        severity_color [of ex_libs 4 ex_before ex_after "''a.js''" 40960]
  by (simp add: i_size_make_item or_zero_def obj_get_def ex_after_def)

text \<open>
  C6. With \<open>dt\<close> the sign-prefixed pretty delta and \<open>base\<close> the coloured pretty size of
  a record: when the delta is at most 1 in absolute value the delta text is empty and
  the size text is \<open>base\<close> alone; otherwise the size text is \<open>base\<close>, in bold when the
  delta exceeds 1024, followed by the delta text in parentheses, and the delta text is
  \<open>dt\<close> in red when the delta exceeds 1024, \<open>dt\<close> in green when the delta is below -10,
  and plain \<open>dt\<close> in between.
\<close>

theorem delta_annotation:
  assumes "it = make_item L w b a nm"
    and "base = chalk L (Paint (i_color it)) (prettyBytes L (i_size it))"
    and "dt = (if 0 < i_delta it then ''+'' else []) @ prettyBytes L (i_delta it)"
  shows "(\<bar>i_delta it\<bar> \<le> 1 \<longrightarrow> i_deltaText it = [] \<and> i_sizeText it = base) \<and>
         (1 < \<bar>i_delta it\<bar> \<longrightarrow>
            i_sizeText it = (if 1024 < i_delta it then chalk L Bold base else base)
                             @ '' ('' @ i_deltaText it @ '')'') \<and>
         (1024 < i_delta it \<longrightarrow> i_deltaText it = chalk L (Paint Red) dt) \<and>
         (i_delta it < - 10 \<longrightarrow> i_deltaText it = chalk L (Paint Green) dt) \<and>
         (1 < \<bar>i_delta it\<bar> \<and> - 10 \<le> i_delta it \<and> i_delta it \<le> 1024 \<longrightarrow> i_deltaText it = dt)"
proof -
  define d where "d = or_zero (obj_get a nm) - or_zero (obj_get b nm)"
  have d: "i_delta it = d"
    using assms(1) by (simp add: i_delta_make_item d_def)
  have dtext: "i_deltaText it =
     (if \<bar>d\<bar> > 1
      then (if d > 1024 then chalk L (Paint Red) dt
            else if d < - 10 then chalk L (Paint Green) dt else dt)
      else [])"
    using assms(1,3) d by (simp add: i_deltaText_make_item d_def)
  have stext: "i_sizeText it =
     (if \<bar>d\<bar> > 1
      then (if d > 1024 then chalk L Bold base else base) @ '' ('' @ i_deltaText it @ '')''
      else base)"
    using assms(1,2) d i_sizeText_make_item [of L w b a nm] by simp
  show ?thesis
    unfolding d dtext stext by simp
qed

theorem delta_annotation_witness:
  "i_delta (make_item ex_libs 4 ex_before ex_after ''b.js'') = - 200 \<and>
   i_deltaText (make_item ex_libs 4 ex_before ex_after ''b.js'') = ''<green>-B'' \<and>
   i_sizeText (make_item ex_libs 4 ex_before ex_after ''b.js'') = ''<green>B (<green>-B)''"
  using delta_annotation [OF refl refl refl, of ex_libs 4 ex_before ex_after "''b.js''"]
  by (simp add: i_delta_make_item i_size_make_item i_color_make_item or_zero_def obj_get_def
        ex_before_def ex_after_def pick_color_def ex_libs_def ex_chalk_def)

section \<open>Map construction and the stored history\<close>

lemma last_occurrence:
  "k \<in> set xs \<Longrightarrow>
     \<exists>m<length xs. xs ! m = k \<and> (\<forall>l. m < l \<and> l < length xs \<longrightarrow> xs ! l \<noteq> k)"
proof (induction xs rule: rev_induct)
  case Nil
  then show ?case by simp
next
  case (snoc x xs)
  show ?case
  proof (cases "x = k")
    case True
    have "\<forall>l. length xs < l \<and> l < length (xs @ [x]) \<longrightarrow> (xs @ [x]) ! l \<noteq> k"
    proof (intro allI impI)
      fix l assume "length xs < l \<and> l < length (xs @ [x])"
      then have "length xs < l" and "l < Suc (length xs)" by simp_all
      then have False by simp
      then show "(xs @ [x]) ! l \<noteq> k" ..
    qed
    with True show ?thesis
      by (intro exI [of _ "length xs"]) simp
  next
    case False
    with snoc.prems have "k \<in> set xs" by simp
    from snoc.IH [OF this] obtain m where m: "m < length xs" "xs ! m = k"
      "\<forall>l. m < l \<and> l < length xs \<longrightarrow> xs ! l \<noteq> k"
      by blast
    have "\<forall>l. m < l \<and> l < length (xs @ [x]) \<longrightarrow> (xs @ [x]) ! l \<noteq> k"
    proof (intro allI impI)
      fix l assume l: "m < l \<and> l < length (xs @ [x])"
      show "(xs @ [x]) ! l \<noteq> k"
      proof (cases "l < length xs")
        case True
        with m(3) l show ?thesis by (simp add: nth_append)
      next
        case False
        with l have "l = length xs" by simp
        with \<open>x \<noteq> k\<close> show ?thesis by simp
      qed
    qed
    with m(1,2) show ?thesis
      by (intro exI [of _ m]) (simp add: nth_append)
  qed
qed

text \<open>
  C7. When \<open>toMap\<close> is given the normalized names of a list of raw filenames and their
  sizes, and two distinct raw filenames at positions \<open>i < j\<close> normalize to the same key,
  the map holds for that key the size of one single filename, at position \<open>j\<close> or later:
  the size of the last filename that normalizes to the key, which is the one at \<open>j\<close>
  when no filename after it does. The earlier size is overwritten, nothing is added up.
\<close>

theorem toMap_later_overwrites:
  assumes "length values = length names"
    and "i < j" and "j < length names"
    and "names ! i \<noteq> names ! j"
    and "h (names ! i) = h (names ! j)"
  shows "(\<exists>m. j \<le> m \<and> m < length names \<and> h (names ! m) = h (names ! j) \<and>
            (\<forall>l. m < l \<and> l < length names \<longrightarrow> h (names ! l) \<noteq> h (names ! j)) \<and>
            obj_get (toMap (map h names) values) (h (names ! j)) = Some (values ! m)) \<and>
         ((\<forall>l. j < l \<and> l < length names \<longrightarrow> h (names ! l) \<noteq> h (names ! j)) \<longrightarrow>
            obj_get (toMap (map h names) values) (h (names ! j)) = Some (values ! j))"
proof -
  let ?k = "h (names ! j)"
  have get: "obj_get (toMap (map h names) values) ?k = Some (values ! m)"
    if "m < length names" and "h (names ! m) = ?k"
      and "\<forall>l. m < l \<and> l < length names \<longrightarrow> h (names ! l) \<noteq> ?k" for m
  proof -
    have "obj_get (toMap_loop [] 0 (map h names) values) ?k = Some (js_nth values (0 + m))"
    proof (rule toMap_loop_last)
      show "m < length (map h names)" using that(1) by simp
      show "map h names ! m = ?k" using that(1,2) by simp
      show "\<forall>l. m < l \<and> l < length (map h names) \<longrightarrow> map h names ! l \<noteq> ?k"
        using that(3) by simp
    qed
    then show ?thesis using assms(1) that(1) by (simp add: toMap_def js_nth_def)
  qed
  have "?k \<in> set (map h names)" using assms(3) by simp
  from last_occurrence [OF this] obtain m where m: "m < length names" "h (names ! m) = ?k"
    "\<forall>l. m < l \<and> l < length names \<longrightarrow> h (names ! l) \<noteq> ?k"
    by auto
  have "j \<le> m"
  proof (rule ccontr)
    assume "\<not> j \<le> m"
    then have "m < j \<and> j < length names" using assms(3) by simp
    with m(3) show False by blast
  qed
  with m get [OF m] have first: "\<exists>m. j \<le> m \<and> m < length names \<and> h (names ! m) = ?k \<and>
            (\<forall>l. m < l \<and> l < length names \<longrightarrow> h (names ! l) \<noteq> ?k) \<and>
            obj_get (toMap (map h names) values) ?k = Some (values ! m)"
    by blast
  have second: "obj_get (toMap (map h names) values) ?k = Some (values ! j)"
    if "\<forall>l. j < l \<and> l < length names \<longrightarrow> h (names ! l) \<noteq> ?k"
    using get [OF assms(3) refl that] .
  from first second show ?thesis by blast
qed

theorem toMap_later_overwrites_witness:
  "obj_get (toMap (map ex_strip [''a.1.js'', ''a.2.js'']) [Num 10, Num 20]) ''a.js''
     = Some (Num 20)"
  using toMap_later_overwrites [of "[Num 10, Num 20]" "[''a.1.js'', ''a.2.js'']" 0 1 ex_strip]
  by (simp add: ex_strip_def)

text \<open>
  C9. Reading the history never fails: when the file is missing, does not parse or
  does not hold an array, the result is the empty history. When it holds an array of
  snapshots the result is that array's snapshots ordered by descending timestamp.
\<close>

theorem readFromDisk_empty_or_sorted:
  "(fs w p = Missing \<or> fs w p = Unparsable \<or> fs w p = NotArray \<longrightarrow> readFromDisk w p = []) \<and>
   (fs w p = Parsed h \<longrightarrow>
      sorted_wrt (\<lambda>x y. timestamp y \<le> timestamp x) (readFromDisk w p) \<and>
      mset (readFromDisk w p) = mset h)"
proof -
  have "sorted_wrt (\<lambda>x y. timestamp y \<le> timestamp x) (sort_key (\<lambda>s. - timestamp s) h)"
    using sorted_desc_readFromDisk [of h] by simp
  then show ?thesis by (auto simp: readFromDisk_def)
qed

theorem readFromDisk_empty_or_sorted_witness:
  "readFromDisk (ex_world Missing) ''/size-plugin.json'' = [] \<and>
   map timestamp (readFromDisk
      (ex_world (Parsed [\<lparr>timestamp = 1, files = []\<rparr>, \<lparr>timestamp = 5, files = []\<rparr>,
                         \<lparr>timestamp = 3, files = []\<rparr>]))
      ''/size-plugin.json'') = [5, 3, 1]"
  using readFromDisk_empty_or_sorted [of "ex_world Missing" "''/size-plugin.json''" "[]"]
    readFromDisk_empty_or_sorted
      [of "ex_world (Parsed [\<lparr>timestamp = 1, files = []\<rparr>, \<lparr>timestamp = 5, files = []\<rparr>,
                             \<lparr>timestamp = 3, files = []\<rparr>])" "''/size-plugin.json''"
          "[\<lparr>timestamp = 1, files = []\<rparr>, \<lparr>timestamp = 5, files = []\<rparr>,
            \<lparr>timestamp = 3, files = []\<rparr>]"]
  by (simp add: ex_world_def readFromDisk_def)

section \<open>Saving: effects of an invocation\<close>

lemma fs_emit: "fs (emit x w) = fs w"
  by (simp add: emit_def)

lemma trace_emit: "trace (emit x w) = trace w @ [x]"
  by (simp add: emit_def)

lemma fs_publishDiff: "fs (publishDiff e d f w) = fs w"
  by (simp add: publishDiff_def Let_def fs_emit)

lemma fs_publishSizes: "fs (publishSizes e d f w) = fs w"
  by (simp add: publishSizes_def Let_def fs_emit)

lemma trace_publishDiff:
  "trace (publishDiff e d f w) =
     trace w @ Call_publishDiff d f #
       (if NODE_ENV e \<noteq> Some ''test'' \<and> truthy (ci e) \<and> event e = Some ''pull_request''
        then [Post (endpoint e @ ''/diff'') (params e f (Diff d))]
        else [])"
  by (simp add: publishDiff_def Let_def trace_emit)

lemma trace_publishSizes:
  "trace (publishSizes e d f w) =
     trace w @ Call_publishSizes d f #
       (if NODE_ENV e \<noteq> Some ''test'' \<and> truthy (ci e) \<and> event e = Some ''push'' \<and>
           branch e = Some ''master''
        then [Post (endpoint e @ ''/size'') (params e f (Size d))]
        else [])"
  by (simp add: publishSizes_def Let_def trace_emit)

lemma readFromDisk_cong: "fs w' = fs w \<Longrightarrow> readFromDisk w' p = readFromDisk w p"
  by (simp add: readFromDisk_def)

lemma writeToDisk_closed:
  "\<not> (mode opt = Some ''production'' \<and> list_ex (\<lambda>f. e_diff f \<noteq> 0) (files stats)) \<Longrightarrow>
     writeToDisk opt e p stats w = w"
  by (auto simp: writeToDisk_def)

lemma fs_writeToDisk_open:
  "mode opt = Some ''production'' \<Longrightarrow> list_ex (\<lambda>f. e_diff f \<noteq> 0) (files stats) \<Longrightarrow>
     fs (writeToDisk opt e p stats w) =
       (if writeFile opt then (fs w)(p := Parsed (stats # readFromDisk w p)) else fs w)"
  by (simp add: writeToDisk_def Let_def fs_publishSizes fs_emit)

lemma trace_writeToDisk_open:
  "mode opt = Some ''production'' \<Longrightarrow> list_ex (\<lambda>f. e_diff f \<noteq> 0) (files stats) \<Longrightarrow>
     trace (writeToDisk opt e p stats w) =
       trace w @
       (if writeFile opt then [WriteJSON p (stats # readFromDisk w p)] else []) @
       (if publish opt
        then Call_publishSizes (stats # readFromDisk w p) (filename opt) #
          (if NODE_ENV e \<noteq> Some ''test'' \<and> truthy (ci e) \<and> event e = Some ''push'' \<and>
              branch e = Some ''master''
           then [Post (endpoint e @ ''/size'')
                  (params e (filename opt) (Size (stats # readFromDisk w p)))]
           else [])
        else [])"
  by (simp add: writeToDisk_def Let_def trace_publishSizes trace_emit)

lemma save_before_write:
  "save opt e now items w =
     writeToDisk opt e (filepath opt) (stats_of now items)
       (before_write opt e (stats_of now items) w)"
  by (simp add: save_def before_write_def Let_def)

lemma fs_before_write: "fs (before_write opt e stats w) = fs w"
  by (simp add: before_write_def Let_def fs_publishDiff fs_emit)

lemma trace_before_write:
  "trace (before_write opt e stats w) =
     trace w @
     (if publish opt
      then Call_publishDiff stats (filename opt) #
        (if NODE_ENV e \<noteq> Some ''test'' \<and> truthy (ci e) \<and> event e = Some ''pull_request''
         then [Post (endpoint e @ ''/diff'') (params e (filename opt) (Diff stats))]
         else [])
      else []) @
     (if save_hook opt then [Call_save stats] else [])"
  by (simp add: before_write_def Let_def trace_publishDiff trace_emit)

lemma outputSizes_saves:
  "current_sizes L opt assets = Some finalSizes \<Longrightarrow>
     \<exists>text. outputSizes L opt e now assets outputPath w =
       Inr (text, save opt e now (make_items L (load L opt w outputPath) finalSizes) w)"
  by (simp add: outputSizes_def Let_def)

lemma outputSizes_rejects:
  "current_sizes L opt assets = None \<Longrightarrow>
     outputSizes L opt e now assets outputPath w = Inl CompressionRejected"
  by (simp add: outputSizes_def Let_def)

lemma ex_current_sizes:
  "current_sizes ex_libs ex_options ex_assets = Some [(''a.js'', Num 4)]"
  by (simp add: current_sizes_def filterFiles_def keys_def ex_assets_def ex_libs_def
        ex_options_def ex_suffix_def truthy_def asset_size_def obj_get_def toMap_def
        ex_strip_def obj_set_def js_nth_def is_array_index_def is_digit_def)

lemma ex_getSizes:
  "getSizes ex_libs ex_options ''dist'' = [(''a.js'', Num 20), (''bad.js'', Null)]"
  by (simp add: getSizes_def filterFiles_def keys_def ex_libs_def
        ex_options_def ex_suffix_def truthy_def toMap_def
        ex_strip_def obj_set_def js_nth_def is_array_index_def is_digit_def)

lemma new_effects_append: "trace w' = trace w @ xs \<Longrightarrow> new_effects w w' = xs"
  by (simp add: new_effects_def)

lemma list_ex_Bex: "list_ex P xs \<longleftrightarrow> (\<exists>x\<in>set xs. P x)"
  by (simp add: list_ex_iff)

lemma save_closed:
  assumes "\<not> (mode opt = Some ''production'' \<and> (\<exists>f\<in>set (files (stats_of now items)). e_diff f \<noteq> 0))"
  shows "fs (save opt e now items w) = fs w"
    and "new_effects w (save opt e now items w) =
           (if publish opt
            then Call_publishDiff (stats_of now items) (filename opt) #
              (if NODE_ENV e \<noteq> Some ''test'' \<and> truthy (ci e) \<and> event e = Some ''pull_request''
               then [Post (endpoint e @ ''/diff'')
                      (params e (filename opt) (Diff (stats_of now items)))]
               else [])
            else []) @
           (if save_hook opt then [Call_save (stats_of now items)] else [])"
proof -
  have eq: "save opt e now items w = before_write opt e (stats_of now items) w"
    using assms by (simp add: save_before_write writeToDisk_closed list_ex_Bex)
  show "fs (save opt e now items w) = fs w"
    by (simp add: eq fs_before_write)
  show "new_effects w (save opt e now items w) =
           (if publish opt
            then Call_publishDiff (stats_of now items) (filename opt) #
              (if NODE_ENV e \<noteq> Some ''test'' \<and> truthy (ci e) \<and> event e = Some ''pull_request''
               then [Post (endpoint e @ ''/diff'')
                      (params e (filename opt) (Diff (stats_of now items)))]
               else [])
            else []) @
           (if save_hook opt then [Call_save (stats_of now items)] else [])"
    by (rule new_effects_append) (simp only: eq trace_before_write)
qed

lemma save_open:
  assumes "mode opt = Some ''production''"
    and "\<exists>f\<in>set (files (stats_of now items)). e_diff f \<noteq> 0"
  shows "fs (save opt e now items w) =
           (if writeFile opt
            then (fs w)(filepath opt :=
                   Parsed (stats_of now items # readFromDisk w (filepath opt)))
            else fs w)"
    and "new_effects w (save opt e now items w) =
           (if publish opt
            then Call_publishDiff (stats_of now items) (filename opt) #
              (if NODE_ENV e \<noteq> Some ''test'' \<and> truthy (ci e) \<and> event e = Some ''pull_request''
               then [Post (endpoint e @ ''/diff'')
                      (params e (filename opt) (Diff (stats_of now items)))]
               else [])
            else []) @
           (if save_hook opt then [Call_save (stats_of now items)] else []) @
           (if writeFile opt
            then [WriteJSON (filepath opt)
                    (stats_of now items # readFromDisk w (filepath opt))]
            else []) @
           (if publish opt
            then Call_publishSizes (stats_of now items # readFromDisk w (filepath opt))
                   (filename opt) #
              (if NODE_ENV e \<noteq> Some ''test'' \<and> truthy (ci e) \<and> event e = Some ''push'' \<and>
                  branch e = Some ''master''
               then [Post (endpoint e @ ''/size'')
                      (params e (filename opt)
                         (Size (stats_of now items # readFromDisk w (filepath opt))))]
               else [])
            else [])"
proof -
  let ?w2 = "before_write opt e (stats_of now items) w"
  have ex: "list_ex (\<lambda>f. e_diff f \<noteq> 0) (files (stats_of now items))"
    using assms(2) by (simp add: list_ex_Bex)
  have rd: "readFromDisk ?w2 (filepath opt) = readFromDisk w (filepath opt)"
    by (rule readFromDisk_cong) (rule fs_before_write)
  show "fs (save opt e now items w) =
           (if writeFile opt
            then (fs w)(filepath opt :=
                   Parsed (stats_of now items # readFromDisk w (filepath opt)))
            else fs w)"
    by (simp add: save_before_write fs_writeToDisk_open [OF assms(1) ex] rd fs_before_write)
  show "new_effects w (save opt e now items w) =
           (if publish opt
            then Call_publishDiff (stats_of now items) (filename opt) #
              (if NODE_ENV e \<noteq> Some ''test'' \<and> truthy (ci e) \<and> event e = Some ''pull_request''
               then [Post (endpoint e @ ''/diff'')
                      (params e (filename opt) (Diff (stats_of now items)))]
               else [])
            else []) @
           (if save_hook opt then [Call_save (stats_of now items)] else []) @
           (if writeFile opt
            then [WriteJSON (filepath opt)
                    (stats_of now items # readFromDisk w (filepath opt))]
            else []) @
           (if publish opt
            then Call_publishSizes (stats_of now items # readFromDisk w (filepath opt))
                   (filename opt) #
              (if NODE_ENV e \<noteq> Some ''test'' \<and> truthy (ci e) \<and> event e = Some ''push'' \<and>
                  branch e = Some ''master''
               then [Post (endpoint e @ ''/size'')
                      (params e (filename opt)
                         (Size (stats_of now items # readFromDisk w (filepath opt))))]
               else [])
            else [])"
    by (rule new_effects_append)
       (simp only: save_before_write trace_writeToDisk_open [OF assms(1) ex] rd
          trace_before_write append_assoc)
qed

lemma rq_body_params: "rq_body (params e f b) = b"
  by (simp add: params_def)

lemma save_persisted_closed:
  assumes "\<not> (mode opt = Some ''production'' \<and> (\<exists>f\<in>set (files (stats_of now items)). e_diff f \<noteq> 0))"
  shows "filter persists (new_effects w (save opt e now items w)) = []"
  using save_closed(2) [OF assms, where e=e and w=w] by (simp add: rq_body_params)

lemma save_persisted_open:
  assumes "mode opt = Some ''production''"
    and "\<exists>f\<in>set (files (stats_of now items)). e_diff f \<noteq> 0"
  shows "filter persists (new_effects w (save opt e now items w)) =
           (if writeFile opt
            then [WriteJSON (filepath opt)
                    (stats_of now items # readFromDisk w (filepath opt))]
            else []) @
           (if publish opt
            then Call_publishSizes (stats_of now items # readFromDisk w (filepath opt))
                   (filename opt) #
              (if NODE_ENV e \<noteq> Some ''test'' \<and> truthy (ci e) \<and> event e = Some ''push'' \<and>
                  branch e = Some ''master''
               then [Post (endpoint e @ ''/size'')
                      (params e (filename opt)
                         (Size (stats_of now items # readFromDisk w (filepath opt))))]
               else [])
            else [])"
  using save_open(2) [OF assms, where e=e and w=w] by (simp add: rq_body_params)

lemma Bex_persists: "(\<exists>x\<in>set xs. persists x) \<longleftrightarrow> filter persists xs \<noteq> []"
  by (simp add: filter_empty_conv)

lemma ex_load: "load ex_libs ex_options (ex_world Missing) ''dist'' = getSizes ex_libs ex_options ''dist''"
  by (simp add: load_def readFromDisk_def ex_world_def)

lemma ex_items_build:
  "make_items ex_libs (getSizes ex_libs ex_options ''dist'') [(''a.js'', Num 4)] =
     [make_item ex_libs 6 (getSizes ex_libs ex_options ''dist'') [(''a.js'', Num 4)] ''a.js'',
      make_item ex_libs 6 (getSizes ex_libs ex_options ''dist'') [(''a.js'', Num 4)] ''bad.js'']"
proof -
  have "unique_files (getSizes ex_libs ex_options ''dist'') [(''a.js'', Num 4)] = [''a.js'', ''bad.js'']"
    by (simp add: ex_getSizes unique_files_def js_filter_def dedupe_def keys_def)
  then show ?thesis by (simp add: make_items_def max_width_def)
qed

lemma ex_build_changed:
  "\<exists>f\<in>set (files (stats_of now
       (make_items ex_libs (getSizes ex_libs ex_options ''dist'') [(''a.js'', Num 4)]))).
     e_diff f \<noteq> 0"
  unfolding ex_items_build
  by (simp add: stats_of_def i_size_make_item i_sizeBefore_make_item
        ex_getSizes obj_get_def or_zero_def)

lemma readFromDisk_stored:
  "(\<forall>h. fs w p = Parsed h \<longrightarrow>
        readFromDisk w p = sort_key (\<lambda>s. - timestamp s) h \<and>
        mset (readFromDisk w p) = mset h \<and>
        sorted_wrt (\<lambda>x y. timestamp y \<le> timestamp x) (readFromDisk w p)) \<and>
   (fs w p = Missing \<or> fs w p = Unparsable \<or> fs w p = NotArray \<longrightarrow> readFromDisk w p = [])"
proof -
  have "sorted_wrt (\<lambda>x y. timestamp y \<le> timestamp x) (sort_key (\<lambda>s. - timestamp s) h)" for h
    using sorted_desc_readFromDisk [of h] by simp
  then show ?thesis by (auto simp: readFromDisk_def)
qed

lemma ex_history_sorted:
  "readFromDisk (ex_world (Parsed ex_history)) ''/size-plugin.json'' =
     [\<lparr>timestamp = 2, files = [ex_entry ''a.js'' 20]\<rparr>,
      \<lparr>timestamp = 1, files = [ex_entry ''old.js'' 9]\<rparr>]"
  by (simp add: readFromDisk_def ex_world_def ex_history_def)

lemma ex_load_history:
  "load ex_libs ex_options (ex_world (Parsed ex_history)) ''dist'' = [(''a.js'', Num 20)]"
proof -
  have "filepath ex_options = ''/size-plugin.json''" by (simp add: ex_options_def)
  then show ?thesis
    by (simp add: load_def ex_history_sorted toFileMap_def ex_entry_def obj_set_def keys_def
          is_array_index_def is_digit_def)
qed

lemma ex_history_changed:
  "\<exists>f\<in>set (files (stats_of now (make_items ex_libs [(''a.js'', Num 20)] [(''a.js'', Num 4)]))).
     e_diff f \<noteq> 0"
proof -
  have "unique_files [(''a.js'', Num 20)] [(''a.js'', Num 4)] = [''a.js'']"
    by (simp add: unique_files_def js_filter_def dedupe_def keys_def)
  then have "make_items ex_libs [(''a.js'', Num 20)] [(''a.js'', Num 4)] =
      [make_item ex_libs 4 [(''a.js'', Num 20)] [(''a.js'', Num 4)] ''a.js'']"
    by (simp add: make_items_def max_width_def)
  then show ?thesis
    by (simp add: stats_of_def i_size_make_item i_sizeBefore_make_item obj_get_def or_zero_def)
qed

text \<open>
  C3. An invocation of \<open>outputSizes\<close> whose compressions succeed saves the snapshot
  \<open>stats\<close> of its records. Let \<open>old\<close> be the current history: the snapshots stored in
  the history file, ordered by descending timestamp, or the empty list when the file is
  missing, does not parse or holds no array. Unless the mode is "production" and some
  record has a nonzero diff, the files on disk stay as they were and nothing that
  persists a history happens. In production mode with a nonzero diff, \<open>stats\<close> is put in
  front of \<open>old\<close>, and that whole list is written to the history file if \<open>writeFile\<close>
  is set and handed to \<open>publishSizes\<close> if \<open>publish\<close> is set, each flag on its own.
\<close>

theorem persistence_gate:
  assumes "current_sizes L opt assets = Some finalSizes"
    and "stats = stats_of now (make_items L (load L opt w outputPath) finalSizes)"
  shows "\<exists>text w' old.
     outputSizes L opt e now assets outputPath w = Inr (text, w') \<and>
     (\<forall>h. fs w (filepath opt) = Parsed h \<longrightarrow>
        old = sort_key (\<lambda>s. - timestamp s) h \<and> mset old = mset h \<and>
        sorted_wrt (\<lambda>x y. timestamp y \<le> timestamp x) old) \<and>
     (fs w (filepath opt) = Missing \<or> fs w (filepath opt) = Unparsable \<or>
      fs w (filepath opt) = NotArray \<longrightarrow> old = []) \<and>
     (\<not> (mode opt = Some ''production'' \<and> (\<exists>f\<in>set (files stats). e_diff f \<noteq> 0)) \<longrightarrow>
        fs w' = fs w \<and> filter persists (new_effects w w') = []) \<and>
     (mode opt = Some ''production'' \<and> (\<exists>f\<in>set (files stats). e_diff f \<noteq> 0) \<longrightarrow>
        fs w' = (if writeFile opt then (fs w)(filepath opt := Parsed (stats # old)) else fs w) \<and>
        filter persists (new_effects w w') =
          (if writeFile opt then [WriteJSON (filepath opt) (stats # old)] else []) @
          (if publish opt
           then Call_publishSizes (stats # old) (filename opt) #
             (if NODE_ENV e \<noteq> Some ''test'' \<and> truthy (ci e) \<and> event e = Some ''push'' \<and>
                 branch e = Some ''master''
              then [Post (endpoint e @ ''/size'') (params e (filename opt) (Size (stats # old)))]
              else [])
           else []))"
proof -
  let ?items = "make_items L (load L opt w outputPath) finalSizes"
  let ?w' = "save opt e now ?items w"
  let ?old = "readFromDisk w (filepath opt)"
  from outputSizes_saves [OF assms(1)] obtain t
    where out: "outputSizes L opt e now assets outputPath w = Inr (t, ?w')"
    by blast
  have stored: "(\<forall>h. fs w (filepath opt) = Parsed h \<longrightarrow>
        ?old = sort_key (\<lambda>s. - timestamp s) h \<and> mset ?old = mset h \<and>
        sorted_wrt (\<lambda>x y. timestamp y \<le> timestamp x) ?old) \<and>
     (fs w (filepath opt) = Missing \<or> fs w (filepath opt) = Unparsable \<or>
      fs w (filepath opt) = NotArray \<longrightarrow> ?old = [])"
    by (rule readFromDisk_stored)
  have closed: "fs ?w' = fs w \<and> filter persists (new_effects w ?w') = []"
    if "\<not> (mode opt = Some ''production'' \<and> (\<exists>f\<in>set (files stats). e_diff f \<noteq> 0))"
    using save_closed(1) [where opt=opt and now=now and items="?items" and e=e and w=w]
      save_persisted_closed [where opt=opt and now=now and items="?items" and e=e and w=w]
      that assms(2)
    by simp
  have "open": "fs ?w' = (if writeFile opt then (fs w)(filepath opt := Parsed (stats # ?old))
                          else fs w) \<and>
        filter persists (new_effects w ?w') =
          (if writeFile opt then [WriteJSON (filepath opt) (stats # ?old)] else []) @
          (if publish opt
           then Call_publishSizes (stats # ?old) (filename opt) #
             (if NODE_ENV e \<noteq> Some ''test'' \<and> truthy (ci e) \<and> event e = Some ''push'' \<and>
                 branch e = Some ''master''
              then [Post (endpoint e @ ''/size'') (params e (filename opt) (Size (stats # ?old)))]
              else [])
           else [])"
    if "mode opt = Some ''production'' \<and> (\<exists>f\<in>set (files stats). e_diff f \<noteq> 0)"
    using save_open(1) [where opt=opt and now=now and items="?items" and e=e and w=w]
      save_persisted_open [where opt=opt and now=now and items="?items" and e=e and w=w]
      that assms(2)
    by simp
  from out stored closed "open" show ?thesis
    by (intro exI [of _ t] exI [of _ ?w'] exI [of _ ?old]) blast
qed


theorem persistence_gate_witness:
  "(\<exists>text w'.
     outputSizes ex_libs ex_options ex_env 7 ex_assets ''dist'' (ex_world (Parsed ex_history))
       = Inr (text, w') \<and>
     fs w' ''/size-plugin.json'' =
       Parsed [stats_of 7 (make_items ex_libs [(''a.js'', Num 20)] [(''a.js'', Num 4)]),
               \<lparr>timestamp = 2, files = [ex_entry ''a.js'' 20]\<rparr>,
               \<lparr>timestamp = 1, files = [ex_entry ''old.js'' 9]\<rparr>] \<and>
     filter persists (new_effects (ex_world (Parsed ex_history)) w') =
       [WriteJSON ''/size-plugin.json''
          [stats_of 7 (make_items ex_libs [(''a.js'', Num 20)] [(''a.js'', Num 4)]),
           \<lparr>timestamp = 2, files = [ex_entry ''a.js'' 20]\<rparr>,
           \<lparr>timestamp = 1, files = [ex_entry ''old.js'' 9]\<rparr>],
        Call_publishSizes
          [stats_of 7 (make_items ex_libs [(''a.js'', Num 20)] [(''a.js'', Num 4)]),
           \<lparr>timestamp = 2, files = [ex_entry ''a.js'' 20]\<rparr>,
           \<lparr>timestamp = 1, files = [ex_entry ''old.js'' 9]\<rparr>] ''size-plugin.json'']) \<and>
   (\<exists>text w'.
     outputSizes ex_libs ex_options ex_env 7 ex_assets ''dist'' (ex_world Missing) = Inr (text, w') \<and>
     fs w' ''/size-plugin.json'' =
       Parsed [stats_of 7 (make_items ex_libs (getSizes ex_libs ex_options ''dist'')
                 [(''a.js'', Num 4)])])"
proof -
  have g: "mode ex_options = Some ''production''"
    and wf: "writeFile ex_options" "publish ex_options"
    and names: "filepath ex_options = ''/size-plugin.json''"
       "filename ex_options = ''size-plugin.json''"
    and ev: "event ex_env = Some ''pull_request''"
    by (simp_all add: ex_options_def ex_env_def)
  let ?W = "ex_world (Parsed ex_history)"
  let ?stats = "stats_of 7 (make_items ex_libs [(''a.js'', Num 20)] [(''a.js'', Num 4)])"
  let ?sorted = "[\<lparr>timestamp = 2, files = [ex_entry ''a.js'' 20]\<rparr>,
                  \<lparr>timestamp = 1, files = [ex_entry ''old.js'' 9]\<rparr>]"
  have stored: "fs ?W ''/size-plugin.json'' = Parsed ex_history"
    by (simp add: ex_world_def)
  have srt: "sort_key (\<lambda>s. - timestamp s) ex_history = ?sorted"
    by (simp add: ex_history_def)
  from persistence_gate [OF ex_current_sizes refl, of ex_env 7 "''dist''" ?W]
  obtain t w' old where
    out: "outputSizes ex_libs ex_options ex_env 7 ex_assets ''dist'' ?W = Inr (t, w')"
    and rd: "\<forall>h. fs ?W ''/size-plugin.json'' = Parsed h \<longrightarrow>
               old = sort_key (\<lambda>s. - timestamp s) h \<and> mset old = mset h \<and>
               sorted_wrt (\<lambda>x y. timestamp y \<le> timestamp x) old"
    and wr: "fs w' = (fs ?W)(''/size-plugin.json'' := Parsed (?stats # old))"
      "filter persists (new_effects ?W w') =
         [WriteJSON ''/size-plugin.json'' (?stats # old),
          Call_publishSizes (?stats # old) ''size-plugin.json'']"
    using g wf names ev ex_history_changed [of 7]
    by (auto simp: ex_load_history)
  from rd stored srt have "old = ?sorted" by simp
  with out wr have first: "\<exists>text w'.
     outputSizes ex_libs ex_options ex_env 7 ex_assets ''dist'' ?W = Inr (text, w') \<and>
     fs w' ''/size-plugin.json'' = Parsed (?stats # ?sorted) \<and>
     filter persists (new_effects ?W w') =
       [WriteJSON ''/size-plugin.json'' (?stats # ?sorted),
        Call_publishSizes (?stats # ?sorted) ''size-plugin.json'']"
    by simp
  have missing: "fs (ex_world Missing) ''/size-plugin.json'' = Missing"
    by (simp add: ex_world_def)
  from persistence_gate [OF ex_current_sizes refl, of ex_env 7 "''dist''" "ex_world Missing"]
  obtain t2 w2 old2 where
    out2: "outputSizes ex_libs ex_options ex_env 7 ex_assets ''dist'' (ex_world Missing)
             = Inr (t2, w2)"
    and rd2: "old2 = []"
    and wr2: "fs w2 = (fs (ex_world Missing))(''/size-plugin.json'' :=
           Parsed (stats_of 7 (make_items ex_libs (getSizes ex_libs ex_options ''dist'')
                 [(''a.js'', Num 4)]) # old2))"
    using g wf names ev missing ex_build_changed [of 7]
    by (auto simp: ex_load)
  then have second: "\<exists>text w'.
     outputSizes ex_libs ex_options ex_env 7 ex_assets ''dist'' (ex_world Missing) = Inr (text, w') \<and>
     fs w' ''/size-plugin.json'' =
       Parsed [stats_of 7 (make_items ex_libs (getSizes ex_libs ex_options ''dist'')
                 [(''a.js'', Num 4)])]"
    by simp
  from first second show ?thesis by blast
qed

lemma ex_current_sizes_mode:
  "current_sizes ex_libs (ex_options\<lparr>mode := m\<rparr>) ex_assets = Some [(''a.js'', Num 4)]"
  by (simp add: current_sizes_def filterFiles_def keys_def ex_assets_def ex_libs_def
        ex_options_def ex_suffix_def truthy_def asset_size_def obj_get_def toMap_def
        ex_strip_def obj_set_def js_nth_def is_array_index_def is_digit_def)

text \<open>
  C10. An invocation of \<open>outputSizes\<close> whose compressions succeed calls
  \<open>publishDiff\<close> with the new snapshot exactly when \<open>publish\<close> is set, and the custom
  save hook with the new snapshot exactly when one is configured, whatever the mode and
  the deltas are; \<open>publishDiff\<close> then posts the diff inside its CI gate. Effects that
  persist a history (the JSON write, \<open>publishSizes\<close>) occur only in production mode
  with a nonzero diff.
\<close>

theorem diff_publish_ungated:
  assumes "current_sizes L opt assets = Some finalSizes"
    and "stats = stats_of now (make_items L (load L opt w outputPath) finalSizes)"
  shows "\<exists>text w'. outputSizes L opt e now assets outputPath w = Inr (text, w') \<and>
     (publish opt \<longleftrightarrow> Call_publishDiff stats (filename opt) \<in> set (new_effects w w')) \<and>
     (publish opt \<and> NODE_ENV e \<noteq> Some ''test'' \<and> truthy (ci e) \<and>
        event e = Some ''pull_request'' \<longleftrightarrow>
      Post (endpoint e @ ''/diff'') (params e (filename opt) (Diff stats))
        \<in> set (new_effects w w')) \<and>
     (save_hook opt \<longleftrightarrow> Call_save stats \<in> set (new_effects w w')) \<and>
     ((\<exists>x\<in>set (new_effects w w'). persists x) \<longleftrightarrow>
        mode opt = Some ''production'' \<and> (\<exists>f\<in>set (files stats). e_diff f \<noteq> 0) \<and>
        (writeFile opt \<or> publish opt))"
proof -
  let ?items = "make_items L (load L opt w outputPath) finalSizes"
  let ?w' = "save opt e now ?items w"
  let ?gate = "mode opt = Some ''production'' \<and> (\<exists>f\<in>set (files stats). e_diff f \<noteq> 0)"
  from outputSizes_saves [OF assms(1)] obtain t
    where out: "outputSizes L opt e now assets outputPath w = Inr (t, ?w')"
    by blast
  have calls:
    "(publish opt \<longleftrightarrow> Call_publishDiff stats (filename opt) \<in> set (new_effects w ?w')) \<and>
     (publish opt \<and> NODE_ENV e \<noteq> Some ''test'' \<and> truthy (ci e) \<and>
        event e = Some ''pull_request'' \<longleftrightarrow>
      Post (endpoint e @ ''/diff'') (params e (filename opt) (Diff stats))
        \<in> set (new_effects w ?w')) \<and>
     (save_hook opt \<longleftrightarrow> Call_save stats \<in> set (new_effects w ?w'))"
  proof (cases ?gate)
    case True
    then show ?thesis
      using save_open(2) [where opt=opt and now=now and items="?items" and e=e and w=w] assms(2)
      by (simp add: params_def)
  next
    case False
    then show ?thesis
      using save_closed(2) [where opt=opt and now=now and items="?items" and e=e and w=w] assms(2)
      by (simp add: params_def)
  qed
  have gated: "(\<exists>x\<in>set (new_effects w ?w'). persists x) \<longleftrightarrow>
                 ?gate \<and> (writeFile opt \<or> publish opt)"
  proof (cases ?gate)
    case True
    then show ?thesis
      using save_persisted_open [where opt=opt and now=now and items="?items" and e=e and w=w]
        assms(2)
      by (simp add: Bex_persists)
  next
    case False
    then show ?thesis
      using save_persisted_closed [where opt=opt and now=now and items="?items" and e=e and w=w]
        assms(2)
      by (simp add: Bex_persists)
  qed
  have facts:
    "(publish opt \<longleftrightarrow> Call_publishDiff stats (filename opt) \<in> set (new_effects w ?w')) \<and>
     (publish opt \<and> NODE_ENV e \<noteq> Some ''test'' \<and> truthy (ci e) \<and>
        event e = Some ''pull_request'' \<longleftrightarrow>
      Post (endpoint e @ ''/diff'') (params e (filename opt) (Diff stats))
        \<in> set (new_effects w ?w')) \<and>
     (save_hook opt \<longleftrightarrow> Call_save stats \<in> set (new_effects w ?w')) \<and>
     ((\<exists>x\<in>set (new_effects w ?w'). persists x) \<longleftrightarrow> ?gate \<and> (writeFile opt \<or> publish opt))"
    using calls gated by blast
  from out facts show ?thesis by blast
qed

theorem diff_publish_ungated_witness:
  "\<exists>text w'.
     outputSizes ex_libs (ex_options\<lparr>mode := Some ''development''\<rparr>) ex_env 7 ex_assets ''dist''
       (ex_world Missing) = Inr (text, w') \<and>
     Call_publishDiff
       (stats_of 7 (make_items ex_libs
          (load ex_libs (ex_options\<lparr>mode := Some ''development''\<rparr>) (ex_world Missing) ''dist'')
          [(''a.js'', Num 4)]))
       ''size-plugin.json'' \<in> set (new_effects (ex_world Missing) w') \<and>
     Call_save
       (stats_of 7 (make_items ex_libs
          (load ex_libs (ex_options\<lparr>mode := Some ''development''\<rparr>) (ex_world Missing) ''dist'')
          [(''a.js'', Num 4)]))
       \<in> set (new_effects (ex_world Missing) w') \<and>
     \<not> (\<exists>x\<in>set (new_effects (ex_world Missing) w'). persists x)"
proof -
  have o: "publish (ex_options\<lparr>mode := Some ''development''\<rparr>)"
    "save_hook (ex_options\<lparr>mode := Some ''development''\<rparr>)"
    "filename (ex_options\<lparr>mode := Some ''development''\<rparr>) = ''size-plugin.json''"
    "mode (ex_options\<lparr>mode := Some ''development''\<rparr>) \<noteq> Some ''production''"
    by (simp_all add: ex_options_def)
  from diff_publish_ungated [OF ex_current_sizes_mode refl,
      of "Some ''development''" ex_env 7 "''dist''" "ex_world Missing"]
  obtain t w' where
    "outputSizes ex_libs (ex_options\<lparr>mode := Some ''development''\<rparr>) ex_env 7 ex_assets ''dist''
       (ex_world Missing) = Inr (t, w')"
    and "Call_publishDiff
       (stats_of 7 (make_items ex_libs
          (load ex_libs (ex_options\<lparr>mode := Some ''development''\<rparr>) (ex_world Missing) ''dist'')
          [(''a.js'', Num 4)]))
       ''size-plugin.json'' \<in> set (new_effects (ex_world Missing) w')"
    and "Call_save
       (stats_of 7 (make_items ex_libs
          (load ex_libs (ex_options\<lparr>mode := Some ''development''\<rparr>) (ex_world Missing) ''dist'')
          [(''a.js'', Num 4)]))
       \<in> set (new_effects (ex_world Missing) w')"
    and "\<not> (\<exists>x\<in>set (new_effects (ex_world Missing) w'). persists x)"
    using o by auto
  then show ?thesis by blast
qed

section \<open>Loading the baseline\<close>

lemma filter_same_key:
  "distinct (map g xs) \<Longrightarrow> f \<in> set xs \<Longrightarrow> filter (\<lambda>x. g x = g f) xs = [f]"
proof (induction xs)
  case Nil
  then show ?case by simp
next
  case (Cons x xs)
  show ?case
  proof (cases "x = f")
    case True
    have "g f \<notin> g ` set xs"
      using Cons.prems(1) True by simp
    then have "\<forall>y\<in>set xs. g y \<noteq> g f"
      by (metis imageI)
    then have "filter (\<lambda>y. g y = g f) xs = []"
      by (simp add: filter_empty_conv)
    with True show ?thesis by simp
  next
    case False
    with Cons.prems have "f \<in> set xs" by simp
    moreover have "g x \<noteq> g f"
      using Cons.prems(1) \<open>f \<in> set xs\<close> by auto
    ultimately show ?thesis using Cons by simp
  qed
qed

lemma toFileMap_get:
  "obj_get (toFileMap xs) k =
     (case filter (\<lambda>f. e_filename f = k \<and> e_size f \<noteq> 0) xs of
        [] \<Rightarrow> None
      | y # ys \<Rightarrow> Some (Num (e_size (last (y # ys)))))"
  unfolding toFileMap_def toFileMap_loop_get by (simp add: obj_get_def split: list.splits)

lemma toFileMap_get_distinct:
  assumes "distinct (map e_filename xs)" and "f \<in> set xs"
  shows "obj_get (toFileMap xs) (e_filename f) =
           (if e_size f = 0 then None else Some (Num (e_size f)))"
proof -
  have "filter (\<lambda>x. e_filename x = e_filename f \<and> e_size x \<noteq> 0) xs
          = filter (\<lambda>x. e_size x \<noteq> 0) (filter (\<lambda>x. e_filename x = e_filename f) xs)"
    by (simp add: conj_commute)
  also have "\<dots> = filter (\<lambda>x. e_size x \<noteq> 0) [f]"
    using filter_same_key [OF assms] by simp
  finally show ?thesis by (simp add: toFileMap_get)
qed

lemma readFromDisk_latest:
  assumes "fs w p = Parsed h" and "h \<noteq> []"
  shows "\<exists>s rest. readFromDisk w p = s # rest \<and> s \<in> set h \<and>
           (\<forall>t\<in>set h. timestamp t \<le> timestamp s)"
proof -
  let ?r = "sort_key (\<lambda>s. - timestamp s) h"
  have r: "readFromDisk w p = ?r" using assms(1) by (simp add: readFromDisk_def)
  have "set ?r = set h" by simp
  moreover have "?r \<noteq> []"
    using assms(2) by (metis set_empty set_sort)
  then obtain s rest where sr: "?r = s # rest" by (cases ?r) auto
  moreover have "sorted_wrt (\<lambda>x y. timestamp y \<le> timestamp x) ?r"
    using sorted_desc_readFromDisk [of h] by simp
  ultimately have "s \<in> set h" and "\<forall>t\<in>set h. timestamp t \<le> timestamp s"
    by auto
  with r sr show ?thesis by simp
qed

text \<open>
  C4 (as stated, refuted). In a snapshot with two entries for one filename, both with
  nonzero size, the first entry's filename is not mapped to the first entry's size.
\<close>

theorem load_duplicate_counterexample:
  "load ex_libs ex_options
     (ex_world (Parsed [\<lparr>timestamp = 1,
                         files = [ex_entry ''a.js'' 5, ex_entry ''a.js'' 7]\<rparr>]))
     ''dist'' = [(''a.js'', Num 7)] \<and>
   \<not> (\<forall>f\<in>set [ex_entry ''a.js'' 5, ex_entry ''a.js'' 7].
        e_size f \<noteq> 0 \<longrightarrow>
        obj_get
          (load ex_libs ex_options
             (ex_world (Parsed [\<lparr>timestamp = 1,
                                 files = [ex_entry ''a.js'' 5, ex_entry ''a.js'' 7]\<rparr>]))
             ''dist'')
          (e_filename f) = Some (Num (e_size f)))"
  by (simp add: load_def readFromDisk_def ex_world_def toFileMap_def obj_set_def keys_def
        ex_entry_def obj_get_def is_array_index_def is_digit_def)

text \<open>
  C4 (amended). For a non-empty stored history, \<open>load\<close> returns the map built from the
  files of the most recent snapshot (the first after sorting, which has the greatest
  timestamp): a filename is mapped to the size of the last entry with that filename and
  a nonzero size, and is absent when there is no such entry. When the snapshot's
  filenames are distinct, as in every snapshot \<open>save\<close> builds, each entry with nonzero
  size maps its filename to that size and the filename of an entry with size zero is
  absent.
\<close>

theorem load_latest_snapshot:
  assumes "fs w (filepath opt) = Parsed h" and "h \<noteq> []"
  shows "\<exists>s rest. readFromDisk w (filepath opt) = s # rest \<and> s \<in> set h \<and>
     (\<forall>t\<in>set h. timestamp t \<le> timestamp s) \<and>
     load L opt w outputPath = toFileMap (files s) \<and>
     (\<forall>k. obj_get (load L opt w outputPath) k =
        (case filter (\<lambda>f. e_filename f = k \<and> e_size f \<noteq> 0) (files s) of
           [] \<Rightarrow> None
         | y # ys \<Rightarrow> Some (Num (e_size (last (y # ys)))))) \<and>
     (distinct (map e_filename (files s)) \<longrightarrow>
        (\<forall>f\<in>set (files s). obj_get (load L opt w outputPath) (e_filename f) =
           (if e_size f = 0 then None else Some (Num (e_size f)))))"
proof -
  from readFromDisk_latest [OF assms] obtain s rest
    where sr: "readFromDisk w (filepath opt) = s # rest" "s \<in> set h"
      "\<forall>t\<in>set h. timestamp t \<le> timestamp s"
    by blast
  have ld: "load L opt w outputPath = toFileMap (files s)"
    using sr(1) by (simp add: load_def)
  show ?thesis
    using sr ld toFileMap_get [of "files s"] toFileMap_get_distinct [of "files s"]
    by auto
qed

theorem load_latest_snapshot_witness:
  "load ex_libs ex_options
     (ex_world (Parsed [\<lparr>timestamp = 1, files = [ex_entry ''old.js'' 9]\<rparr>,
                        \<lparr>timestamp = 2, files = [ex_entry ''a.js'' 5, ex_entry ''b.js'' 0]\<rparr>]))
     ''dist'' = [(''a.js'', Num 5)]"
proof -
  let ?h = "[\<lparr>timestamp = 1, files = [ex_entry ''old.js'' 9]\<rparr>,
             \<lparr>timestamp = 2, files = [ex_entry ''a.js'' 5, ex_entry ''b.js'' 0]\<rparr>]"
  have a: "fs (ex_world (Parsed ?h)) (filepath ex_options) = Parsed ?h"
    by (simp add: ex_world_def)
  have b: "?h \<noteq> []" by simp
  from load_latest_snapshot [OF a b, of ex_libs "''dist''"]
  obtain s rest where
    "readFromDisk (ex_world (Parsed ?h)) (filepath ex_options) = s # rest"
    and "load ex_libs ex_options (ex_world (Parsed ?h)) ''dist'' = toFileMap (files s)"
    by blast
  then show ?thesis
    by (auto simp: readFromDisk_def ex_world_def toFileMap_def obj_set_def keys_def
        ex_entry_def is_array_index_def is_digit_def)
qed

lemma distinct_unique_files: "distinct (unique_files b a)"
  using filter_loop_dedupe [of "[]" "keys b @ keys a"]
  by (simp add: unique_files_def js_filter_def distinct_first_seen)

lemma stats_distinct_filenames:
  "distinct (map e_filename (files (stats_of now (make_items L b a))))"
proof -
  have "map e_filename (files (stats_of now (make_items L b a))) = map i_name (make_items L b a)"
    by (simp add: stats_of_def comp_def)
  then show ?thesis by (simp add: make_items_names distinct_unique_files)
qed

lemma getSizes_aligned:
  assumes "filterFiles L opt (glob L (pattern opt) dir (exclude opt)) =
             glob L (pattern opt) dir (exclude opt)"
  shows "getSizes L opt dir =
           toMap (map (stripHash opt) (glob L (pattern opt) dir (exclude opt)))
                 (map (size_or_null L opt dir) (glob L (pattern opt) dir (exclude opt)))"
  using assms by (simp add: getSizes_def Let_def size_or_null_def [abs_def])

lemma keys_getSizes:
  "set (keys (getSizes L opt dir)) = stripHash opt ` set (glob L (pattern opt) dir (exclude opt))"
  by (simp add: getSizes_def Let_def toMap_def set_keys_toMap_loop) (simp add: keys_def)

text \<open>
  C8 (as stated, refuted). Two files found by the scan normalize to the same name; the
  map does not pair the first file's normalized name with the first file's size.
\<close>

theorem getSizes_collision_counterexample:
  "glob ex_libs (pattern ex_options) ''dist'' (exclude ex_options)
     = [''a.1.js'', ''bad.js'', ''a.2.js''] \<and>
   size_or_null ex_libs ex_options ''dist'' ''a.1.js'' = Num 10 \<and>
   getSizes ex_libs ex_options ''dist'' = [(''a.js'', Num 20), (''bad.js'', Null)] \<and>
   \<not> (\<forall>file\<in>set (glob ex_libs (pattern ex_options) ''dist'' (exclude ex_options)).
        obj_get (getSizes ex_libs ex_options ''dist'') (stripHash ex_options file)
          = Some (size_or_null ex_libs ex_options ''dist'' file))"
  unfolding ex_getSizes
  by (simp add: obj_get_def size_or_null_def ex_libs_def ex_options_def ex_strip_def)

text \<open>
  C8 (amended). Let the scan enumerate the files \<open>fnames\<close>, all of which pass
  \<open>filterFiles\<close>. The scan returns a map whose keys are the normalized names of all
  enumerated files. The normalized name of every enumerated file is paired with the
  size recorded for the last enumerated file of that normalized name, which is the file
  itself unless a later file shares its normalized name. The size recorded for a file is
  its own compressed size, or null exactly when its own compression fails, whatever
  happens to the other files.
\<close>

theorem getSizes_pairs_last_file:
  assumes "fnames = glob L (pattern opt) dir (exclude opt)"
    and "filterFiles L opt fnames = fnames"
    and "j < length fnames"
  shows "set (keys (getSizes L opt dir)) = stripHash opt ` set fnames \<and>
         (\<exists>m. j \<le> m \<and> m < length fnames \<and>
            stripHash opt (fnames ! m) = stripHash opt (fnames ! j) \<and>
            (\<forall>l. m < l \<and> l < length fnames \<longrightarrow>
               stripHash opt (fnames ! l) \<noteq> stripHash opt (fnames ! j)) \<and>
            obj_get (getSizes L opt dir) (stripHash opt (fnames ! j))
              = Some (size_or_null L opt dir (fnames ! m))) \<and>
         ((\<forall>l. j < l \<and> l < length fnames \<longrightarrow>
             stripHash opt (fnames ! l) \<noteq> stripHash opt (fnames ! j)) \<longrightarrow>
            obj_get (getSizes L opt dir) (stripHash opt (fnames ! j))
              = Some (size_or_null L opt dir (fnames ! j))) \<and>
         (size_or_null L opt dir (fnames ! j) = Null \<longleftrightarrow>
            compressionSize_file L (compression opt) (path_join L dir (fnames ! j)) = None)"
proof -
  let ?k = "stripHash opt (fnames ! j)"
  have al: "getSizes L opt dir =
      toMap (map (stripHash opt) fnames) (map (size_or_null L opt dir) fnames)"
    using getSizes_aligned [of L opt dir] assms(1,2) by simp
  have get: "obj_get (getSizes L opt dir) ?k = Some (size_or_null L opt dir (fnames ! m))"
    if "m < length fnames" and "stripHash opt (fnames ! m) = ?k"
      and "\<forall>l. m < l \<and> l < length fnames \<longrightarrow> stripHash opt (fnames ! l) \<noteq> ?k" for m
  proof -
    have "obj_get (toMap_loop [] 0 (map (stripHash opt) fnames)
                    (map (size_or_null L opt dir) fnames)) ?k
            = Some (js_nth (map (size_or_null L opt dir) fnames) (0 + m))"
    proof (rule toMap_loop_last)
      show "m < length (map (stripHash opt) fnames)" using that(1) by simp
      show "map (stripHash opt) fnames ! m = ?k" using that(1,2) by simp
      show "\<forall>l. m < l \<and> l < length (map (stripHash opt) fnames) \<longrightarrow>
              map (stripHash opt) fnames ! l \<noteq> ?k"
        using that(3) by simp
    qed
    then show ?thesis using that(1) by (simp add: al toMap_def js_nth_def)
  qed
  have "?k \<in> set (map (stripHash opt) fnames)" using assms(3) by simp
  from last_occurrence [OF this] obtain m where m: "m < length fnames"
    "stripHash opt (fnames ! m) = ?k"
    "\<forall>l. m < l \<and> l < length fnames \<longrightarrow> stripHash opt (fnames ! l) \<noteq> ?k"
    by auto
  have "j \<le> m"
  proof (rule ccontr)
    assume "\<not> j \<le> m"
    then have "m < j \<and> j < length fnames" using assms(3) by simp
    with m(3) show False by blast
  qed
  with m get [OF m] have last: "\<exists>m. j \<le> m \<and> m < length fnames \<and>
            stripHash opt (fnames ! m) = ?k \<and>
            (\<forall>l. m < l \<and> l < length fnames \<longrightarrow> stripHash opt (fnames ! l) \<noteq> ?k) \<and>
            obj_get (getSizes L opt dir) ?k = Some (size_or_null L opt dir (fnames ! m))"
    by blast
  have own: "obj_get (getSizes L opt dir) ?k = Some (size_or_null L opt dir (fnames ! j))"
    if "\<forall>l. j < l \<and> l < length fnames \<longrightarrow> stripHash opt (fnames ! l) \<noteq> ?k"
    using get [OF assms(3) refl that] .
  have ks: "set (keys (getSizes L opt dir)) = stripHash opt ` set fnames"
    using assms(1) by (simp add: keys_getSizes)
  have nul: "size_or_null L opt dir (fnames ! j) = Null \<longleftrightarrow>
            compressionSize_file L (compression opt) (path_join L dir (fnames ! j)) = None"
    by (simp add: size_or_null_def split: option.splits)
  from ks last own nul show ?thesis by blast
qed

theorem getSizes_pairs_last_file_witness:
  "obj_get (getSizes ex_libs ex_options ''dist'') ''bad.js'' = Some Null \<and>
   obj_get (getSizes ex_libs ex_options ''dist'') ''a.js'' = Some (Num 20) \<and>
   set (keys (getSizes ex_libs ex_options ''dist'')) = {''a.js'', ''bad.js''}"
proof -
  let ?fnames = "[''a.1.js'', ''bad.js'', ''a.2.js'']"
  have g: "?fnames = glob ex_libs (pattern ex_options) ''dist'' (exclude ex_options)"
    by (simp add: ex_libs_def)
  have f: "filterFiles ex_libs ex_options ?fnames = ?fnames"
    by (simp add: filterFiles_def ex_libs_def ex_options_def ex_suffix_def truthy_def)
  have s: "stripHash ex_options ''a.1.js'' = ''a.js''" "stripHash ex_options ''bad.js'' = ''bad.js''"
    "stripHash ex_options ''a.2.js'' = ''a.js''"
    by (simp_all add: ex_options_def ex_strip_def)
  have n: "size_or_null ex_libs ex_options ''dist'' ''bad.js'' = Null"
    "size_or_null ex_libs ex_options ''dist'' ''a.2.js'' = Num 20"
    by (simp_all add: size_or_null_def ex_libs_def ex_options_def)
  have l1: "(1::nat) < length ?fnames" and l2: "(2::nat) < length ?fnames" by simp_all
  have h1: "\<forall>l. 1 < l \<and> l < length ?fnames \<longrightarrow>
              stripHash ex_options (?fnames ! l) \<noteq> stripHash ex_options (?fnames ! 1)"
  proof (intro allI impI)
    fix l assume "1 < l \<and> l < length ?fnames"
    then have "l = 2" by simp
    then show "stripHash ex_options (?fnames ! l) \<noteq> stripHash ex_options (?fnames ! 1)"
      by (simp add: s)
  qed
  have h2: "\<forall>l. 2 < l \<and> l < length ?fnames \<longrightarrow>
              stripHash ex_options (?fnames ! l) \<noteq> stripHash ex_options (?fnames ! 2)"
  proof (intro allI impI)
    fix l assume "2 < l \<and> l < length ?fnames"
    then have "2 < l" and "l < 3" by simp_all
    then show "stripHash ex_options (?fnames ! l) \<noteq> stripHash ex_options (?fnames ! 2)"
      by linarith
  qed
  from getSizes_pairs_last_file [OF g f l1] h1
  have a: "obj_get (getSizes ex_libs ex_options ''dist'') (stripHash ex_options (?fnames ! 1))
            = Some (size_or_null ex_libs ex_options ''dist'' (?fnames ! 1))"
    and k: "set (keys (getSizes ex_libs ex_options ''dist'')) = stripHash ex_options ` set ?fnames"
    by blast+
  from getSizes_pairs_last_file [OF g f l2] h2
  have b: "obj_get (getSizes ex_libs ex_options ''dist'') (stripHash ex_options (?fnames ! 2))
            = Some (size_or_null ex_libs ex_options ''dist'' (?fnames ! 2))"
    by blast
  from a b k show ?thesis
    by (simp add: s n insert_commute)
qed

text \<open>
  When \<open>filterFiles\<close> rejects a file that \<open>glob\<close> returned, the sizes are shorter than
  the names and shift: here \<open>bad.js\<close> is rejected, its name receives the size of the
  file after it, and the last name is left with \<open>undefined\<close>.
\<close>

lemma getSizes_shift_example:
  "getSizes (ex_libs\<lparr>minimatch_filter := (\<lambda>pat file. file \<noteq> ''bad.js'')\<rparr>) ex_options ''dist''
     = [(''a.js'', Undefined), (''bad.js'', Num 20)]"
  by (simp add: getSizes_def filterFiles_def keys_def ex_libs_def
        ex_options_def truthy_def toMap_def
        ex_strip_def obj_set_def js_nth_def is_array_index_def is_digit_def)

end
